theory Spec2Isabelle
  imports Complex_Main
begin

section \<open>Python values and errors used by \<^verbatim>\<open>pcs_scraper/utils.py\<close>\<close>

text \<open>
  A Python \<^verbatim>\<open>str\<close> is modelled as a \<^typ>\<open>string\<close>: one \<^typ>\<open>char\<close> per code point, so the
  model covers the strings whose code points lie below 256 (Latin-1). The exceptions that
  the functions of the module can end in are values; a function that may raise returns
  \<open>error + result\<close> with \<open>Inl\<close> for the exception.
\<close>

datatype py_error =
    ValueError string      \<comment> \<open>\<^verbatim>\<open>raise ValueError(msg)\<close> written in utils.py, with its message\<close>
  | ValueError_unpack      \<comment> \<open>ValueError of a sequence unpacking of the wrong length\<close>
  | ValueError_int string  \<comment> \<open>ValueError of \<^verbatim>\<open>int()\<close> on the given text\<close>
  | ValueError_strptime string  \<comment> \<open>ValueError of \<^verbatim>\<open>strptime\<close> on the given text\<close>
  | IndexError
  | TypeError              \<comment> \<open>\<^verbatim>\<open>len(None)\<close>, or an ordering comparison with \<^verbatim>\<open>None\<close>\<close>
  | re_error               \<comment> \<open>\<^verbatim>\<open>re.error\<close>: the pattern text is not a regular expression\<close>
  | OverflowError          \<comment> \<open>a timedelta beyond 999999999 days\<close>

subsection \<open>\<^verbatim>\<open>str.split(sep)\<close> with a one-character separator, \<^verbatim>\<open>sep.join\<close>\<close>

fun split_chr :: "char \<Rightarrow> string \<Rightarrow> string list" where
  "split_chr c [] = [[]]"
| "split_chr c (x # xs) =
     (if x = c then [] # split_chr c xs
      else (x # hd (split_chr c xs)) # tl (split_chr c xs))"

fun join :: "string \<Rightarrow> string list \<Rightarrow> string" where
  "join sep [] = []"
| "join sep [x] = x"
| "join sep (x # y # ys) = x @ sep @ join sep (y # ys)"

section \<open>The table field selector\<close>

text \<open>
  \<^verbatim>\<open>
  for arg in args:
      if arg not in available_fields:
          raise ValueError("Invalid field argument")
  if args: return list(args)
  else:    return list(available_fields)
  \<close>
\<close>

fun check_args :: "string list \<Rightarrow> string list \<Rightarrow> py_error + unit" where
  "check_args [] available_fields = Inr ()"
| "check_args (arg # args) available_fields =
     (if arg \<notin> set available_fields then Inl (ValueError ''Invalid field argument'')
      else check_args args available_fields)"

definition parse_table_fields_args :: "string list \<Rightarrow> string list \<Rightarrow> py_error + string list" where
  "parse_table_fields_args args available_fields =
     (case check_args args available_fields of
        Inl e \<Rightarrow> Inl e
      | Inr _ \<Rightarrow> if args \<noteq> [] then Inr args else Inr available_fields)"

section \<open>The validators\<close>

text \<open>
  The numeric arguments are typed \<^verbatim>\<open>Union[int, float]\<close> and default to \<^verbatim>\<open>math.inf\<close> and
  \<^verbatim>\<open>-math.inf\<close>. Python compares an int with a float by their exact values, so a finite
  number is modelled by the real it denotes; the two infinities and NaN are values of their
  own. \<open>py_lt\<close>, \<open>py_gt\<close> and \<open>py_le\<close> are Python's \<^verbatim>\<open><\<close>, \<^verbatim>\<open>>\<close> and \<^verbatim>\<open><=\<close> on these values:
  every comparison with NaN is false.
\<close>

datatype number = Num real | PosInf | NegInf | NaN

fun py_lt :: "number \<Rightarrow> number \<Rightarrow> bool" where
  "py_lt NaN b = False"
| "py_lt a NaN = False"
| "py_lt (Num a) (Num b) = (a < b)"
| "py_lt (Num a) PosInf = True"
| "py_lt (Num a) NegInf = False"
| "py_lt PosInf b = False"
| "py_lt NegInf NegInf = False"
| "py_lt NegInf b = True"

definition py_gt :: "number \<Rightarrow> number \<Rightarrow> bool" where
  "py_gt a b = py_lt b a"

fun py_le :: "number \<Rightarrow> number \<Rightarrow> bool" where
  "py_le NaN b = False"
| "py_le a NaN = False"
| "py_le (Num a) (Num b) = (a \<le> b)"
| "py_le (Num a) PosInf = True"
| "py_le (Num a) NegInf = False"
| "py_le PosInf PosInf = True"
| "py_le PosInf b = False"
| "py_le NegInf b = True"

text \<open>
  Modelled from the spec: the class \<^verbatim>\<open>ParsedValueInvalidError\<close> of \<^verbatim>\<open>pcs_scraper/errors.py\<close>,
  which utils.py imports, is the error that "carries the offending value"; it is a
  constructor on that value. A validator raises it, or the error object supplied by the
  caller, or ends in an exception of the interpreter. The caller's \<^verbatim>\<open>error\<close> argument is
  \<open>None\<close> or an exception object (exception objects are truthy).
\<close>

datatype ('v, 'e) invalid = ParsedValueInvalidError 'v | Supplied 'e | Builtin py_error

definition raise_invalid :: "'v \<Rightarrow> 'e option \<Rightarrow> ('v, 'e) invalid" where
  "raise_invalid v error = (case error of None \<Rightarrow> ParsedValueInvalidError v | Some e \<Rightarrow> Supplied e)"

text \<open>
  \<^verbatim>\<open>
  valid = True
  if not can_be_none and string is None: valid = False
  if options and string not in options: valid = False
  if len(string) < min_length or len(string) > max_length: valid = False
  if regex:
      regex = [char for char in regex if char not in ("\n", " ")]
      formatted_regex = "".join(regex)
      if re.fullmatch(formatted_regex, string) is None: valid = False
  if not valid:
      if not error: raise ParsedValueInvalidError(string)
      else: raise error
  \<close>
  \<^verbatim>\<open>re.fullmatch\<close> belongs to the standard library and is a parameter: given the pattern and
  the text it says whether there is a match, or raises. \<^verbatim>\<open>len(None)\<close> raises TypeError.
\<close>

definition py_len :: "string option \<Rightarrow> py_error + number" where
  "py_len string = (case string of None \<Rightarrow> Inl TypeError | Some s \<Rightarrow> Inr (Num (real (length s))))"

definition not_in_options :: "string option \<Rightarrow> string list \<Rightarrow> bool" where
  "not_in_options string opts = (case string of None \<Rightarrow> True | Some s \<Rightarrow> s \<notin> set opts)"

definition validate_string ::
  "(string \<Rightarrow> string \<Rightarrow> py_error + bool) \<Rightarrow> string option \<Rightarrow> number \<Rightarrow> number \<Rightarrow> string \<Rightarrow>
   string list option \<Rightarrow> bool \<Rightarrow> 'e option \<Rightarrow> (string option, 'e) invalid + unit" where
  "validate_string re_fullmatch string min_length max_length regex options can_be_none error =
     (let valid = True;
          valid = (if \<not> can_be_none \<and> string = None then False else valid);
          valid = (if options \<noteq> None \<and> options \<noteq> Some [] \<and> not_in_options string (the options)
                   then False else valid)
      in case py_len string of
           Inl e \<Rightarrow> Inl (Builtin e)
         | Inr n \<Rightarrow>
             let valid = (if py_lt n min_length \<or> py_gt n max_length then False else valid)
             in case (if regex \<noteq> []
                      then re_fullmatch (filter (\<lambda>char. char \<noteq> CHR 0x0A \<and> char \<noteq> CHR '' '') regex)
                             (the string)
                      else Inr True) of
                  Inl e \<Rightarrow> Inl (Builtin e)
                | Inr matched \<Rightarrow>
                    let valid = (if \<not> matched then False else valid)
                    in if \<not> valid then Inl (raise_invalid string error) else Inr ())"

text \<open>
  \<^verbatim>\<open>
  valid = True
  if not can_be_none and number is None: valid = False
  if number > max_ or number < min_: valid = False
  if not valid:
      if not error: raise ParsedValueInvalidError(number)
      else: raise error
  \<close>
  An ordering comparison of \<^verbatim>\<open>None\<close> with a number raises TypeError.
\<close>

definition py_gt_opt :: "number option \<Rightarrow> number \<Rightarrow> py_error + bool" where
  "py_gt_opt number b = (case number of None \<Rightarrow> Inl TypeError | Some n \<Rightarrow> Inr (py_gt n b))"

definition py_lt_opt :: "number option \<Rightarrow> number \<Rightarrow> py_error + bool" where
  "py_lt_opt number b = (case number of None \<Rightarrow> Inl TypeError | Some n \<Rightarrow> Inr (py_lt n b))"

definition validate_number ::
  "number option \<Rightarrow> number \<Rightarrow> number \<Rightarrow> bool \<Rightarrow> 'e option \<Rightarrow> (number option, 'e) invalid + unit" where
  "validate_number number min' max' can_be_none error =
     (let valid = True;
          valid = (if \<not> can_be_none \<and> number = None then False else valid)
      in case py_gt_opt number max' of
           Inl e \<Rightarrow> Inl (Builtin e)
         | Inr True \<Rightarrow> Inl (raise_invalid number error)
         | Inr False \<Rightarrow>
             (case py_lt_opt number min' of
                Inl e \<Rightarrow> Inl (Builtin e)
              | Inr below \<Rightarrow>
                  let valid = (if below then False else valid)
                  in if \<not> valid then Inl (raise_invalid number error) else Inr ()))"

section \<open>Numbers as text\<close>

text \<open>
  \<open>str_int\<close> is \<^verbatim>\<open>str\<close> of a Python int (also \<^verbatim>\<open>%d\<close> and an f-string field), \<open>fmt_0d w\<close> is
  \<^verbatim>\<open>%0wd\<close> (zero-padded to width \<open>w\<close>, the sign counted in the width).
\<close>

definition digit_chr :: "nat \<Rightarrow> char" where
  "digit_chr d = char_of (48 + d)"

function str_nat :: "nat \<Rightarrow> string" where
  "str_nat n = (if n < 10 then [digit_chr n] else str_nat (n div 10) @ [digit_chr (n mod 10)])"
  by pat_completeness auto
termination
  by (relation "measure id") auto

declare str_nat.simps [simp del]

definition str_int :: "int \<Rightarrow> string" where
  "str_int i = (if i < 0 then CHR ''-'' # str_nat (nat (- i)) else str_nat (nat i))"

definition fmt_0d :: "nat \<Rightarrow> int \<Rightarrow> string" where
  "fmt_0d w i =
     (if i < 0
      then CHR ''-'' # replicate (w - 1 - length (str_nat (nat (- i)))) CHR ''0'' @ str_nat (nat (- i))
      else replicate (w - length (str_nat (nat i))) CHR ''0'' @ str_nat (nat i))"

text \<open>
  \<open>py_int\<close> is \<^verbatim>\<open>int(text)\<close>: white space is stripped at both ends, one sign may follow, then
  decimal digits, where single underscores may stand between digits. Below code point 256
  the decimal digits are \<open>0\<close> to \<open>9\<close>, and the white space that \<^verbatim>\<open>int\<close> strips is the set of
  \<open>isspace\<close>: tab to carriage return, the space, and the code points 133 and 160 (the
  separators 28 to 31 are not stripped). A text with more than \<open>max_str_digits\<close> digits,
  the interpreter's default limit, is refused with ValueError like any other text that is
  not a number; underscores and the sign do not count.
\<close>

definition is_digit :: "char \<Rightarrow> bool" where
  "is_digit c = (48 \<le> (of_char c :: nat) \<and> (of_char c :: nat) \<le> 57)"

definition digit_val :: "char \<Rightarrow> nat" where
  "digit_val c = of_char c - 48"

definition isspace :: "char \<Rightarrow> bool" where
  "isspace c = (let n = (of_char c :: nat)
                in (9 \<le> n \<and> n \<le> 13) \<or> n = 32 \<or> n = 133 \<or> n = 160)"

definition strip :: "string \<Rightarrow> string" where
  "strip s = rev (dropWhile isspace (rev (dropWhile isspace s)))"

fun parse_digits :: "string \<Rightarrow> nat \<Rightarrow> nat option" where
  "parse_digits [] acc = Some acc"
| "parse_digits (c # cs) acc =
     (if is_digit c then parse_digits cs (10 * acc + digit_val c)
      else if c = CHR ''_'' then
        (case cs of
           [] \<Rightarrow> None
         | d # ds \<Rightarrow> if is_digit d then parse_digits ds (10 * acc + digit_val d) else None)
      else None)"

definition nat_literal :: "string \<Rightarrow> nat option" where
  "nat_literal s =
     (case s of [] \<Rightarrow> None
      | c # cs \<Rightarrow> if is_digit c then parse_digits cs (digit_val c) else None)"

definition int_literal :: "string \<Rightarrow> int option" where
  "int_literal s =
     (case s of
        [] \<Rightarrow> None
      | c # cs \<Rightarrow>
          if c = CHR ''-'' then map_option (\<lambda>n. - int n) (nat_literal cs)
          else if c = CHR ''+'' then map_option int (nat_literal cs)
          else map_option int (nat_literal s))"

definition max_str_digits :: nat where
  "max_str_digits = 4300"

definition py_int :: "string \<Rightarrow> py_error + int" where
  "py_int s =
     (if length (filter is_digit (strip s)) > max_str_digits then Inl (ValueError_int s)
      else case int_literal (strip s) of None \<Rightarrow> Inl (ValueError_int s) | Some i \<Rightarrow> Inr i)"

fun py_nth :: "'a list \<Rightarrow> nat \<Rightarrow> py_error + 'a" where
  "py_nth xs i = (if i < length xs then Inr (xs ! i) else Inl IndexError)"

section \<open>Durations\<close>

text \<open>
  \<^verbatim>\<open>datetime.timedelta\<close> keeps days, seconds and microseconds, normalised so that
  \<open>0 \<le> seconds < 86400\<close> and \<open>0 \<le> microseconds < 1000000\<close>, and refuses more than
  999999999 days in either direction with OverflowError. \<open>new_timedelta\<close> is the
  constructor on integer arguments, \<open>timedelta_hms\<close> the call
  \<^verbatim>\<open>timedelta(hours=.., minutes=.., seconds=..)\<close>, \<open>timedelta_add\<close> is \<^verbatim>\<open>+\<close> and
  \<open>str_timedelta\<close> is \<^verbatim>\<open>str\<close>:
  \<^verbatim>\<open>
  mm, ss = divmod(self._seconds, 60)
  hh, mm = divmod(mm, 60)
  s = "%d:%02d:%02d" % (hh, mm, ss)
  if self._days:
      s = ("%d day%s, " % (self._days, abs(self._days) != 1 and "s" or "")) + s
  if self._microseconds:
      s = s + ".%06d" % self._microseconds
  \<close>
\<close>

record timedelta =
  days :: int
  seconds :: int
  microseconds :: int

definition new_timedelta :: "int \<Rightarrow> int \<Rightarrow> int \<Rightarrow> py_error + timedelta" where
  "new_timedelta d s us =
     (let s1 = s + us div 1000000;
          us1 = us mod 1000000;
          d1 = d + s1 div 86400;
          s2 = s1 mod 86400
      in if \<bar>d1\<bar> > 999999999 then Inl OverflowError
         else Inr \<lparr>days = d1, seconds = s2, microseconds = us1\<rparr>)"

definition timedelta_hms :: "int \<Rightarrow> int \<Rightarrow> int \<Rightarrow> py_error + timedelta" where
  "timedelta_hms hours minutes secs = new_timedelta 0 (hours * 3600 + minutes * 60 + secs) 0"

definition timedelta_add :: "timedelta \<Rightarrow> timedelta \<Rightarrow> py_error + timedelta" where
  "timedelta_add a b =
     new_timedelta (days a + days b) (seconds a + seconds b) (microseconds a + microseconds b)"

definition str_timedelta :: "timedelta \<Rightarrow> string" where
  "str_timedelta td =
     (let mm = seconds td div 60; ss = seconds td mod 60;
          hh = mm div 60; mm = mm mod 60;
          s = str_int hh @ '':'' @ fmt_0d 2 mm @ '':'' @ fmt_0d 2 ss;
          s = (if days td \<noteq> 0
               then str_int (days td) @ '' day'' @ (if \<bar>days td\<bar> \<noteq> 1 then ''s'' else []) @ '', '' @ s
               else s)
      in if microseconds td \<noteq> 0 then s @ ''.'' @ fmt_0d 6 (microseconds td) else s)"

text \<open>
  \<^verbatim>\<open>
  time = str(tdelta).split(" ")
  if len(time) > 1:
      days = time[0]
      time = time[2]
      hours = int(time.split(":")[0]) + (24 * int(days))
      minutes_seconds = ":".join(time.split(":")[1:])
  else:
      hours = time[0].split(":")[0]
      minutes_seconds = ":".join(time[0].split(":")[1:])
  return f"{hours}:{minutes_seconds}"
  \<close>
\<close>

definition timedelta_to_time :: "timedelta \<Rightarrow> py_error + string" where
  "timedelta_to_time tdelta =
     (let time = split_chr CHR '' '' (str_timedelta tdelta)
      in if length time > 1 then
           (case py_nth time 0 of Inl e \<Rightarrow> Inl e | Inr days' \<Rightarrow>
            case py_nth time 2 of Inl e \<Rightarrow> Inl e | Inr time \<Rightarrow>
            case py_nth (split_chr CHR '':'' time) 0 of Inl e \<Rightarrow> Inl e | Inr h \<Rightarrow>
            case py_int h of Inl e \<Rightarrow> Inl e | Inr h \<Rightarrow>
            case py_int days' of Inl e \<Rightarrow> Inl e | Inr d \<Rightarrow>
              let hours = h + 24 * d;
                  minutes_seconds = join '':'' (drop 1 (split_chr CHR '':'' time))
              in Inr (str_int hours @ '':'' @ minutes_seconds))
         else
           (case py_nth time 0 of Inl e \<Rightarrow> Inl e | Inr t \<Rightarrow>
            case py_nth (split_chr CHR '':'' t) 0 of Inl e \<Rightarrow> Inl e | Inr hours \<Rightarrow>
              let minutes_seconds = join '':'' (drop 1 (split_chr CHR '':'' t))
              in Inr (hours @ '':'' @ minutes_seconds)))"

text \<open>
  \<^verbatim>\<open>
  [hours, minutes, seconds] = [int(value) for value in time.split(":")]
  return datetime.timedelta(hours=hours, minutes=minutes, seconds=seconds)
  \<close>
  The comprehension converts every component, left to right, before the unpacking checks
  that there are three.
\<close>

fun int_each :: "string list \<Rightarrow> py_error + int list" where
  "int_each [] = Inr []"
| "int_each (v # vs) =
     (case py_int v of Inl e \<Rightarrow> Inl e | Inr i \<Rightarrow>
      case int_each vs of Inl e \<Rightarrow> Inl e | Inr is \<Rightarrow> Inr (i # is))"

definition time_to_timedelta :: "string \<Rightarrow> py_error + timedelta" where
  "time_to_timedelta time =
     (case int_each (split_chr CHR '':'' time) of
        Inl e \<Rightarrow> Inl e
      | Inr [hours, minutes, secs] \<Rightarrow> timedelta_hms hours minutes secs
      | Inr _ \<Rightarrow> Inl ValueError_unpack)"

text \<open>
  \<^verbatim>\<open>
  time = time.split(":")
  for i, time_val in enumerate(time[-2:]):
      if len(time_val) == 1:
          time[i] = "0" + time_val
  time_str = ":".join(time)
  if len(time) == 2:
      time_str = "0:" + time_str
  return time_str
  \<close>
  The slice \<^verbatim>\<open>time[-2:]\<close> is a copy made before the loop; \<open>i\<close> counts within the slice and
  the assignment \<^verbatim>\<open>time[i] = ...\<close> writes at that index of the whole list (always in range).
\<close>

definition format_time :: "string \<Rightarrow> string" where
  "format_time time =
     (let time = split_chr CHR '':'' time;
          time = fold (\<lambda>(i, time_val) time.
                         if length time_val = 1 then time[i := ''0'' @ time_val] else time)
                      (enumerate 0 (drop (length time - 2) time)) time;
          time_str = join '':'' time
      in if length time = 2 then ''0:'' @ time_str else time_str)"

text \<open>
  \<^verbatim>\<open>
  tdelta1 = time_to_timedelta(format_time(time1))
  tdelta2 = time_to_timedelta(format_time(time2))
  tdelta = tdelta1 + tdelta2
  return timedelta_to_time(tdelta)
  \<close>
\<close>

definition add_time :: "string \<Rightarrow> string \<Rightarrow> py_error + string" where
  "add_time time1 time2 =
     (case time_to_timedelta (format_time time1) of Inl e \<Rightarrow> Inl e | Inr tdelta1 \<Rightarrow>
      case time_to_timedelta (format_time time2) of Inl e \<Rightarrow> Inl e | Inr tdelta2 \<Rightarrow>
      case timedelta_add tdelta1 tdelta2 of Inl e \<Rightarrow> Inl e | Inr tdelta \<Rightarrow>
        timedelta_to_time tdelta)"

section \<open>Notions used to state the properties\<close>

text \<open>
  The length of a duration in microseconds, and the sum of two durations as the
  specification means it: the duration whose length is the sum of the two lengths, which
  exists as a timedelta when it has no more than 999999999 days.
\<close>

definition total_microseconds :: "timedelta \<Rightarrow> int" where
  "total_microseconds td = (days td * 86400 + seconds td) * 1000000 + microseconds td"

definition duration_sum :: "timedelta \<Rightarrow> timedelta \<Rightarrow> py_error + timedelta" where
  "duration_sum a b =
     (let n = total_microseconds a + total_microseconds b
      in if \<bar>n div 86400000000\<bar> > 999999999 then Inl OverflowError
         else Inr \<lparr>days = n div 86400000000, seconds = n div 1000000 mod 86400,
                   microseconds = n mod 1000000\<rparr>)"

text \<open>
  The composition that the specification gives for \<open>add_time\<close>: normalise both operands
  with \<open>format_time\<close>, convert each to a duration, sum the durations, render the sum.
\<close>

definition bind_error :: "'e + 'a \<Rightarrow> ('a \<Rightarrow> 'e + 'b) \<Rightarrow> 'e + 'b" where
  "bind_error r f = (case r of Inl e \<Rightarrow> Inl e | Inr x \<Rightarrow> f x)"

definition add_time_composed :: "string \<Rightarrow> string \<Rightarrow> py_error + string" where
  "add_time_composed time1 time2 =
     (let normal1 = format_time time1; normal2 = format_time time2
      in bind_error (time_to_timedelta normal1) (\<lambda>duration1.
         bind_error (time_to_timedelta normal2) (\<lambda>duration2.
         bind_error (duration_sum duration1 duration2) timedelta_to_time)))"

text \<open>
  A time of \<open>h\<close> hours, \<open>m\<close> minutes and \<open>s\<close> seconds in seconds; the loose text \<^verbatim>\<open>M:SS\<close>
  of minutes and seconds, each in decimal as it comes; and the \<^verbatim>\<open>H:MM:SS\<close> text of a
  number of seconds.
\<close>

definition seconds_of :: "nat \<Rightarrow> nat \<Rightarrow> nat \<Rightarrow> nat" where
  "seconds_of h m s = h * 3600 + m * 60 + s"

definition loose_text :: "nat \<Rightarrow> nat \<Rightarrow> string" where
  "loose_text m s = str_nat m @ '':'' @ str_nat s"

text \<open>
  The well-formed \<^verbatim>\<open>H:MM:SS\<close> text of \<open>h\<close> hours, \<open>m\<close> minutes and \<open>s\<close> seconds: the hours
  in decimal, minutes and seconds with two digits each.
\<close>

definition two_digits :: "nat \<Rightarrow> string" where
  "two_digits n = [digit_chr (n div 10), digit_chr (n mod 10)]"

definition hms_text :: "nat \<Rightarrow> nat \<Rightarrow> nat \<Rightarrow> string" where
  "hms_text h m s = str_nat h @ '':'' @ two_digits m @ '':'' @ two_digits s"

definition hms_of_seconds :: "nat \<Rightarrow> string" where
  "hms_of_seconds t = hms_text (t div 3600) (t div 60 mod 60) (t mod 60)"

text \<open>
  \<open>time_text t h m s\<close>: the text \<open>t\<close> is a text of the time of \<open>h\<close> hours, \<open>m\<close> minutes and
  \<open>s\<close> seconds, either the full \<^verbatim>\<open>H:MM:SS\<close> or, when there are no hours, the loose \<^verbatim>\<open>M:SS\<close>.
\<close>

definition time_text :: "string \<Rightarrow> nat \<Rightarrow> nat \<Rightarrow> nat \<Rightarrow> bool" where
  "time_text t h m s = (t = hms_text h m s \<or> (h = 0 \<and> t = loose_text m s))"

text \<open>Texts made of decimal digits only, and the number such a text denotes.\<close>

definition digits :: "string \<Rightarrow> bool" where
  "digits ds = (\<forall>c \<in> set ds. is_digit c)"

definition dec_value :: "nat \<Rightarrow> string \<Rightarrow> nat" where
  "dec_value acc ds = foldl (\<lambda>a c. 10 * a + digit_val c) acc ds"

section \<open>The embedded day and month\<close>

text \<open>
  \<^verbatim>\<open>str.isnumeric\<close>: the text is not empty and all its characters are numeric. Below code
  point 256 the numeric characters are the digits \<open>0\<close> to \<open>9\<close>, the superscripts
  (178, 179, 185) and the vulgar fractions (188 to 190). \<open>slice s i j\<close> is \<^verbatim>\<open>s[i:j]\<close> for
  \<open>0 \<le> i \<le> j\<close>, which never fails.
\<close>

definition isnumeric_chr :: "char \<Rightarrow> bool" where
  "isnumeric_chr c =
     (let n = (of_char c :: nat)
      in (48 \<le> n \<and> n \<le> 57) \<or> n = 178 \<or> n = 179 \<or> n = 185 \<or> (188 \<le> n \<and> n \<le> 190))"

definition isnumeric :: "string \<Rightarrow> bool" where
  "isnumeric s = (s \<noteq> [] \<and> list_all isnumeric_chr s)"

definition slice :: "'a list \<Rightarrow> nat \<Rightarrow> nat \<Rightarrow> 'a list" where
  "slice s i j = take (j - i) (drop i s)"

text \<open>
  \<^verbatim>\<open>
  day, month = "", ""
  for i, char in enumerate(str_with_date[:-4]):
      if str_with_date[i:i + 2].isnumeric() and \
              str_with_date[i + 3:i + 5].isnumeric():
          if str_with_date[i + 2] == "/":
              [day, month] = str_with_date[i:i + 5].split("/")
          elif str_with_date[i + 2] == "-":
              [day, month] = str_with_date[i:i + 5].split("-")
  if day.isnumeric() and month.isnumeric():
      return day, month
  raise ValueError(
      "Given string doesn't contain day and month in wanted format")
  \<close>
  \<open>scan_step\<close> is one turn of the loop on the pair \<open>(day, month)\<close>, \<open>scan\<close> the loop over
  the indices of \<^verbatim>\<open>str_with_date[:-4]\<close>, which are those below \<open>length str_with_date - 4\<close>.
  There is no \<^verbatim>\<open>break\<close>: a later match overwrites an earlier one.
\<close>

definition unpack2 :: "string list \<Rightarrow> py_error + string \<times> string" where
  "unpack2 xs = (case xs of [a, b] \<Rightarrow> Inr (a, b) | _ \<Rightarrow> Inl ValueError_unpack)"

definition scan_step :: "string \<Rightarrow> nat \<Rightarrow> string \<times> string \<Rightarrow> py_error + string \<times> string" where
  "scan_step str_with_date i day_month =
     (if isnumeric (slice str_with_date i (i + 2)) \<and> isnumeric (slice str_with_date (i + 3) (i + 5))
      then
        (case py_nth str_with_date (i + 2) of
           Inl e \<Rightarrow> Inl e
         | Inr sep \<Rightarrow>
             if sep = CHR ''/'' then unpack2 (split_chr CHR ''/'' (slice str_with_date i (i + 5)))
             else if sep = CHR ''-'' then unpack2 (split_chr CHR ''-'' (slice str_with_date i (i + 5)))
             else Inr day_month)
      else Inr day_month)"

fun scan :: "string \<Rightarrow> nat list \<Rightarrow> string \<times> string \<Rightarrow> py_error + string \<times> string" where
  "scan str_with_date [] day_month = Inr day_month"
| "scan str_with_date (i # is) day_month =
     (case scan_step str_with_date i day_month of
        Inl e \<Rightarrow> Inl e
      | Inr day_month' \<Rightarrow> scan str_with_date is day_month')"

definition no_date_message :: string where
  "no_date_message =
     ''Given string doesn'' @ [CHR 0x27] @ ''t contain day and month in wanted format''"

definition get_day_month :: "string \<Rightarrow> py_error + string \<times> string" where
  "get_day_month str_with_date =
     (case scan str_with_date [0 ..< length str_with_date - 4] ([], []) of
        Inl e \<Rightarrow> Inl e
      | Inr (day, month) \<Rightarrow>
          if isnumeric day \<and> isnumeric month then Inr (day, month)
          else Inl (ValueError no_date_message))"

text \<open>
  A date window of the text at offset \<open>i\<close>: five characters, numeric at offsets 0, 1, 3
  and 4, with \<open>/\<close> or \<open>-\<close> at offset 2; and the pair of its two numeric parts.
\<close>

definition date_window :: "string \<Rightarrow> nat \<Rightarrow> bool" where
  "date_window s i =
     (i + 5 \<le> length s \<and> isnumeric_chr (s ! i) \<and> isnumeric_chr (s ! (i + 1))
      \<and> (s ! (i + 2) = CHR ''/'' \<or> s ! (i + 2) = CHR ''-'')
      \<and> isnumeric_chr (s ! (i + 3)) \<and> isnumeric_chr (s ! (i + 4)))"

definition window_pair :: "string \<Rightarrow> nat \<Rightarrow> string \<times> string" where
  "window_pair s i = ([s ! i, s ! (i + 1)], [s ! (i + 3), s ! (i + 4)])"

text \<open>The pair that the loop holds after its turns at the offsets below \<open>k\<close>, started with \<open>dm\<close>.\<close>

primrec last_pair :: "string \<Rightarrow> nat \<Rightarrow> string \<times> string \<Rightarrow> string \<times> string" where
  "last_pair s 0 dm = dm"
| "last_pair s (Suc k) dm = (if date_window s k then window_pair s k else last_pair s k dm)"

section \<open>Dates in words\<close>

text \<open>
  \<^verbatim>\<open>datetime.datetime.strptime(month, "%B").month\<close>: the whole text must be a full month
  name of the locale, compared without regard to case; the result is its number, from 1.
  The model takes the English names (the C locale). \<open>lower_chr\<close> lowers the letters
  \<open>A\<close> to \<open>Z\<close>, the only characters below code point 256 that match a letter of a month
  name when case is ignored.
\<close>

definition month_names :: "string list" where
  "month_names = [''january'', ''february'', ''march'', ''april'', ''may'', ''june'', ''july'',
                  ''august'', ''september'', ''october'', ''november'', ''december'']"

definition lower_chr :: "char \<Rightarrow> char" where
  "lower_chr c = (if 65 \<le> (of_char c :: nat) \<and> (of_char c :: nat) \<le> 90
                  then char_of ((of_char c :: nat) + 32) else c)"

fun index_of :: "'a \<Rightarrow> 'a list \<Rightarrow> nat option" where
  "index_of x [] = None"
| "index_of x (y # ys) = (if x = y then Some 0 else map_option Suc (index_of x ys))"

definition strptime_B_month :: "string \<Rightarrow> py_error + int" where
  "strptime_B_month text =
     (case index_of (map lower_chr text) month_names of
        None \<Rightarrow> Inl (ValueError_strptime text)
      | Some k \<Rightarrow> Inr (int k + 1))"

text \<open>
  \<^verbatim>\<open>
  [day, month, year] = date.split(" ")
  month = datetime.datetime.strptime(month, "%B").month
  month = f"0{month}" if month < 10 else str(month)
  return "-".join([year, month, day])
  \<close>
\<close>

definition convert_date :: "string \<Rightarrow> py_error + string" where
  "convert_date date =
     (case split_chr CHR '' '' date of
        [day, month, year] \<Rightarrow>
          (case strptime_B_month month of
             Inl e \<Rightarrow> Inl e
           | Inr month \<Rightarrow>
               let month = (if month < 10 then ''0'' @ str_int month else str_int month)
               in Inr (join ''-'' [year, month, day]))
      | _ \<Rightarrow> Inl ValueError_unpack)"

section \<open>The URL patterns\<close>

text \<open>
  The class \<^verbatim>\<open>reg\<close> holds regular expressions as text. Each is given here as a syntax tree
  of the constructs it uses: a character (escaped or not), \<^verbatim>\<open>.\<close> (any character but a line
  feed), a range of a character class, concatenation, \<^verbatim>\<open>|\<close>, and the repetitions \<^verbatim>\<open>*\<close>,
  \<^verbatim>\<open>+\<close>, \<^verbatim>\<open>?\<close> and \<^verbatim>\<open>{m,n}\<close>. Groups only bracket. \<^verbatim>\<open>\d\<close> is a decimal digit, below code
  point 256 the range from \<open>0\<close> to \<open>9\<close>.
\<close>

datatype regex =
    Fail                 \<comment> \<open>matches nothing (arises in derivatives only)\<close>
  | Eps                  \<comment> \<open>the empty pattern\<close>
  | Chr char
  | Dot
  | Range char char
  | Cat regex regex
  | Alt regex regex
  | Star regex

definition plus :: "regex \<Rightarrow> regex" where
  "plus r = Cat r (Star r)"

definition opt :: "regex \<Rightarrow> regex" where
  "opt r = Alt r Eps"

fun cats :: "regex list \<Rightarrow> regex" where
  "cats [] = Eps"
| "cats [r] = r"
| "cats (r # rs) = Cat r (cats rs)"

fun alts :: "regex list \<Rightarrow> regex" where
  "alts [] = Fail"
| "alts [r] = r"
| "alts (r # rs) = Alt r (alts rs)"

definition lit :: "string \<Rightarrow> regex" where
  "lit s = cats (map Chr s)"

definition digit :: regex where
  "digit = Range CHR ''0'' CHR ''9''"

definition letter :: regex where
  "letter = Alt (Range CHR ''a'' CHR ''z'') (Range CHR ''A'' CHR ''Z'')"

definition slashes :: regex where
  "slashes = plus (Chr CHR ''/'')"

text \<open>
  The attribute \<^verbatim>\<open>reg.base_url\<close> is \<open>reg_base_url\<close> here, and so on; \<open>reg\<close> is the table of
  all of them by name.

  \<^verbatim>\<open>(https:\/\/www.procyclingstats.com\/+)\<close>
\<close>

definition reg_base_url :: regex where
  "reg_base_url = cats [lit ''https:'', Chr CHR ''/'', Chr CHR ''/'', lit ''www'', Dot,
                    lit ''procyclingstats'', Dot, lit ''com'', plus (Chr CHR ''/'')]"

text \<open>\<^verbatim>\<open>(\/+([a-zA-Z]+-)*([a-zA-Z]+))\<close>\<close>

definition reg_url_str :: regex where
  "reg_url_str = Cat slashes (Cat (Star (Cat (plus letter) (Chr CHR ''-''))) (plus letter))"

text \<open>\<^verbatim>\<open>(\/+\d{4})\<close>\<close>

definition reg_year :: regex where
  "reg_year = Cat slashes (cats [digit, digit, digit, digit])"

text \<open>
  \<^verbatim>\<open>(\/+(((stage-([1-9]([0-9])?([a-z])?)|prologue)(\/gc|-points|-kom|-youth|-teams)?)|gc))\<close>
\<close>

definition reg_stage :: regex where
  "reg_stage =
     Cat slashes
       (Alt (Cat (Alt (Cat (lit ''stage-'')
                        (cats [Range CHR ''1'' CHR ''9'', opt (Range CHR ''0'' CHR ''9''),
                               opt (Range CHR ''a'' CHR ''z'')]))
                      (lit ''prologue''))
                 (opt (alts [Cat (Chr CHR ''/'') (lit ''gc''), lit ''-points'', lit ''-kom'',
                             lit ''-youth'', lit ''-teams''])))
            (lit ''gc''))"

text \<open>\<^verbatim>\<open>(\/+result)\<close>, \<^verbatim>\<open>(\/+overview)\<close>, \<^verbatim>\<open>(\/+startlist)\<close>\<close>

definition reg_result :: regex where
  "reg_result = Cat slashes (lit ''result'')"

definition reg_overview :: regex where
  "reg_overview = Cat slashes (lit ''overview'')"

definition reg_startlist :: regex where
  "reg_startlist = Cat slashes (lit ''startlist'')"

text \<open>\<^verbatim>\<open>(\/(([a-zA-Z0-9]+-)+)\d{4,5})\<close>\<close>

definition reg_team_url_str :: regex where
  "reg_team_url_str =
     cats [Chr CHR ''/'', plus (Cat (plus (Alt letter digit)) (Chr CHR ''-'')),
           digit, digit, digit, digit, opt digit]"

text \<open>\<^verbatim>\<open>(\/+.*)\<close>\<close>

definition reg_anything :: regex where
  "reg_anything = Cat slashes (Star Dot)"

definition reg :: "(string \<times> regex) list" where
  "reg = [(''base_url'', reg_base_url), (''url_str'', reg_url_str), (''year'', reg_year), (''stage'', reg_stage),
          (''result'', reg_result), (''overview'', reg_overview), (''startlist'', reg_startlist),
          (''team_url_str'', reg_team_url_str), (''anything'', reg_anything)]"

text \<open>
  \<^verbatim>\<open>re.fullmatch\<close> on these constructs finds a match exactly when the whole text belongs to
  the language of the pattern. \<open>fullmatch\<close> decides that by taking the derivative of the
  pattern by each character in turn; \<open>lang\<close> is the language itself.
\<close>

definition in_range :: "char \<Rightarrow> char \<Rightarrow> char \<Rightarrow> bool" where
  "in_range lo hi c = ((of_char lo :: nat) \<le> of_char c \<and> (of_char c :: nat) \<le> of_char hi)"

fun nullable :: "regex \<Rightarrow> bool" where
  "nullable Fail = False"
| "nullable Eps = True"
| "nullable (Chr a) = False"
| "nullable Dot = False"
| "nullable (Range lo hi) = False"
| "nullable (Cat r s) = (nullable r \<and> nullable s)"
| "nullable (Alt r s) = (nullable r \<or> nullable s)"
| "nullable (Star r) = True"

fun deriv :: "char \<Rightarrow> regex \<Rightarrow> regex" where
  "deriv c Fail = Fail"
| "deriv c Eps = Fail"
| "deriv c (Chr a) = (if c = a then Eps else Fail)"
| "deriv c Dot = (if c = CHR 0x0A then Fail else Eps)"
| "deriv c (Range lo hi) = (if in_range lo hi c then Eps else Fail)"
| "deriv c (Cat r s) =
     (if nullable r then Alt (Cat (deriv c r) s) (deriv c s) else Cat (deriv c r) s)"
| "deriv c (Alt r s) = Alt (deriv c r) (deriv c s)"
| "deriv c (Star r) = Cat (deriv c r) (Star r)"

fun fullmatch :: "regex \<Rightarrow> string \<Rightarrow> bool" where
  "fullmatch r [] = nullable r"
| "fullmatch r (c # cs) = fullmatch (deriv c r) cs"

definition conc :: "string set \<Rightarrow> string set \<Rightarrow> string set" where
  "conc A B = {u @ v | u v. u \<in> A \<and> v \<in> B}"

inductive_set star :: "string set \<Rightarrow> string set" for A :: "string set" where
  star_empty: "[] \<in> star A"
| star_more: "u \<in> A \<Longrightarrow> v \<in> star A \<Longrightarrow> u @ v \<in> star A"

fun lang :: "regex \<Rightarrow> string set" where
  "lang Fail = {}"
| "lang Eps = {[]}"
| "lang (Chr a) = {[a]}"
| "lang Dot = {[c] | c. c \<noteq> CHR 0x0A}"
| "lang (Range lo hi) = {[c] | c. in_range lo hi c}"
| "lang (Cat r s) = conc (lang r) (lang s)"
| "lang (Alt r s) = lang r \<union> lang s"
| "lang (Star r) = star (lang r)"

text \<open>A pattern that visibly matches nothing.\<close>

fun void :: "regex \<Rightarrow> bool" where
  "void Fail = True"
| "void (Cat r s) = (void r \<or> void s)"
| "void (Alt r s) = (void r \<and> void s)"
| "void r = False"

section \<open>Properties\<close>

subsection \<open>The table field selector\<close>

lemma check_args_Inr: "check_args args av = Inr () \<longleftrightarrow> set args \<subseteq> set av"
  by (induction args) auto

lemma check_args_Inl:
  "check_args args av \<noteq> Inr () \<Longrightarrow> check_args args av = Inl (ValueError ''Invalid field argument'')"
  by (induction args) (auto split: if_splits)

text \<open>
  C6. If some requested name is not among the legal names, \<open>parse_table_fields_args\<close> raises
  the invalid-argument error; otherwise it returns the requested names in their given order
  when the request is non-empty, and all legal names in the legal tuple's order when the
  request is empty.
\<close>

theorem parse_table_fields_args_spec:
  "parse_table_fields_args args available_fields =
     (if \<exists>a \<in> set args. a \<notin> set available_fields
        then Inl (ValueError ''Invalid field argument'')
      else if args \<noteq> [] then Inr args
      else Inr available_fields)"
proof (cases "set args \<subseteq> set available_fields")
  case True
  then have "check_args args available_fields = Inr ()"
    by (simp add: check_args_Inr)
  with True show ?thesis
    by (auto simp: parse_table_fields_args_def)
next
  case False
  then have "check_args args available_fields \<noteq> Inr ()"
    by (simp add: check_args_Inr)
  then have "check_args args available_fields = Inl (ValueError ''Invalid field argument'')"
    by (rule check_args_Inl)
  with False show ?thesis
    by (auto simp: parse_table_fields_args_def)
qed

theorem parse_table_fields_args_spec_witness:
  "parse_table_fields_args [] [''a'', ''b'', ''c''] = Inr [''a'', ''b'', ''c'']
   \<and> parse_table_fields_args [''b''] [''a'', ''b'', ''c''] = Inr [''b'']
   \<and> parse_table_fields_args [''x''] [''a'', ''b'', ''c''] = Inl (ValueError ''Invalid field argument'')"
  using parse_table_fields_args_spec [of "[]" "[''a'', ''b'', ''c'']"]
        parse_table_fields_args_spec [of "[''b'']" "[''a'', ''b'', ''c'']"]
        parse_table_fields_args_spec [of "[''x'']" "[''a'', ''b'', ''c'']"]
  by simp

subsection \<open>Validators\<close>

lemma py_le_not_gt: "py_le a b \<Longrightarrow> \<not> py_gt a b"
  unfolding py_gt_def by (induction a b rule: py_le.induct) auto

lemma py_le_not_lt: "py_le a b \<Longrightarrow> \<not> py_lt b a"
  by (induction a b rule: py_le.induct) auto

text \<open>
  C8. For a number that is not \<open>None\<close>, \<open>validate_number\<close> returns normally when
  \<open>min' \<le> number \<le> max'\<close> (the source's \<^verbatim>\<open>min_\<close> and \<^verbatim>\<open>max_\<close>), and raises exactly when \<open>number > max'\<close> or \<open>number < min'\<close>:
  then it raises \<open>ParsedValueInvalidError\<close> carrying the number, or the caller's error
  object when one is given.
\<close>

theorem validate_number_bounds:
  "(py_le min' n \<and> py_le n max' \<longrightarrow> validate_number (Some n) min' max' can_be_none error = Inr ())
   \<and> validate_number (Some n) min' max' can_be_none error =
       (if py_gt n max' \<or> py_lt n min'
        then Inl (case error of None \<Rightarrow> ParsedValueInvalidError (Some n) | Some e \<Rightarrow> Supplied e)
        else Inr ())"
  using py_le_not_gt [of n max'] py_le_not_lt [of min' n]
  by (auto simp: validate_number_def py_gt_opt_def py_lt_opt_def raise_invalid_def Let_def
           split: option.splits bool.splits)

theorem validate_number_bounds_witness:
  "validate_number (Some (Num 5)) (Num 1) (Num 10) False (None :: unit option) = Inr ()
   \<and> validate_number (Some (Num 10)) (Num 1) (Num 10) False (None :: unit option) = Inr ()
   \<and> validate_number (Some (Num 11)) (Num 1) (Num 10) False (None :: unit option)
       = Inl (ParsedValueInvalidError (Some (Num 11)))
   \<and> validate_number (Some (Num 0)) (Num 1) PosInf False (Some ''mine'') = Inl (Supplied ''mine'')"
  using validate_number_bounds [of "Num 1" "Num 5" "Num 10" False "None :: unit option"]
        validate_number_bounds [of "Num 1" "Num 10" "Num 10" False "None :: unit option"]
        validate_number_bounds [of "Num 1" "Num 11" "Num 10" False "None :: unit option"]
        validate_number_bounds [of "Num 1" "Num 0" PosInf False "Some ''mine''"]
  by (simp add: py_gt_def)

text \<open>
  C2 (the code departs from it). With the value \<open>None\<close> and \<open>can_be_none\<close> false,
  \<open>validate_string\<close> sets \<open>valid\<close> to false and goes on to \<^verbatim>\<open>len(string)\<close>, which raises
  TypeError: the invalid-value error, or the caller's, is never reached.
\<close>

theorem validate_string_None_disallowed:
  "validate_string re_fullmatch None min_length max_length regex options False error
     = Inl (Builtin TypeError)"
  by (simp add: validate_string_def py_len_def)

text \<open>
  C10. With the value \<open>None\<close> and \<open>can_be_none\<close> true, neither validator returns normally,
  whatever the other constraints are (their defaults included: lengths from 0 to infinity,
  no regex, no options, no error object): \<open>validate_string\<close> raises TypeError at
  \<^verbatim>\<open>len(None)\<close> and \<open>validate_number\<close> raises TypeError at the comparison of \<open>None\<close> with
  \<open>max'\<close>.
\<close>

theorem validators_None_nullable:
  "validate_string re_fullmatch None min_length max_length regex options True error
     = Inl (Builtin TypeError)
   \<and> validate_string re_fullmatch None (Num 0) PosInf [] None True (None :: 'e option)
     = Inl (Builtin TypeError)
   \<and> validate_number None min' max' True error' = Inl (Builtin TypeError)
   \<and> validate_number None NegInf PosInf True (None :: 'e option) = Inl (Builtin TypeError)"
  by (simp add: validate_string_def py_len_def validate_number_def py_gt_opt_def)

subsection \<open>Splitting and decimal text\<close>

lemma split_chr_nonempty: "split_chr c xs \<noteq> []"
  by (induction xs) auto

lemma split_chr_absent: "c \<notin> set xs \<Longrightarrow> split_chr c xs = [xs]"
  by (induction xs) auto

lemma split_chr_first: "c \<notin> set xs \<Longrightarrow> split_chr c (xs @ c # ys) = xs # split_chr c ys"
  by (induction xs) auto

lemma is_digit_digit_chr: "d < 10 \<Longrightarrow> is_digit (digit_chr d)"
  by (simp add: is_digit_def digit_chr_def)

lemma digit_val_digit_chr: "d < 10 \<Longrightarrow> digit_val (digit_chr d) = d"
  by (simp add: digit_val_def digit_chr_def)

lemma digits_str_nat: "digits (str_nat n)"
proof (induction n rule: str_nat.induct)
  case (1 n)
  show ?case
  proof (cases "n < 10")
    case True
    then show ?thesis
      by (subst str_nat.simps) (simp add: digits_def is_digit_digit_chr)
  next
    case False
    with 1 show ?thesis
      by (subst str_nat.simps) (simp add: digits_def is_digit_digit_chr)
  qed
qed

lemma str_nat_nonempty: "str_nat n \<noteq> []"
  by (subst str_nat.simps) simp

lemma dec_value_append: "dec_value acc (xs @ ys) = dec_value (dec_value acc xs) ys"
  by (simp add: dec_value_def)

lemma dec_value_str_nat: "dec_value 0 (str_nat n) = n"
proof (induction n rule: str_nat.induct)
  case (1 n)
  show ?case
  proof (cases "n < 10")
    case True
    then show ?thesis
      by (subst str_nat.simps) (simp add: dec_value_def digit_val_digit_chr)
  next
    case False
    with 1 have "dec_value 0 (str_nat (n div 10)) = n div 10" by simp
    with False show ?thesis
      by (subst str_nat.simps) (simp add: dec_value_append, simp add: dec_value_def digit_val_digit_chr)
  qed
qed

lemma parse_digits_digits: "digits ds \<Longrightarrow> parse_digits ds acc = Some (dec_value acc ds)"
  by (induction ds arbitrary: acc) (auto simp: digits_def dec_value_def)

lemma nat_literal_digits: "digits ds \<Longrightarrow> ds \<noteq> [] \<Longrightarrow> nat_literal ds = Some (dec_value 0 ds)"
  by (cases ds) (auto simp: nat_literal_def parse_digits_digits digits_def dec_value_def)

lemma is_digit_not_space: "is_digit c \<Longrightarrow> \<not> isspace c"
  by (auto simp: is_digit_def isspace_def Let_def)

lemma is_digit_not_sign: "is_digit c \<Longrightarrow> c \<noteq> CHR ''-'' \<and> c \<noteq> CHR ''+''"
  by (auto simp: is_digit_def)

lemma strip_no_space: "\<forall>c \<in> set s. \<not> isspace c \<Longrightarrow> strip s = s"
proof -
  assume a: "\<forall>c \<in> set s. \<not> isspace c"
  have d: "dropWhile isspace t = t" if "\<forall>c \<in> set t. \<not> isspace c" for t
    using that by (cases t) auto
  from a have "dropWhile isspace s = s" by (rule d)
  moreover from a have "dropWhile isspace (rev s) = rev s" by (intro d) simp
  ultimately show ?thesis by (simp add: strip_def)
qed

lemma py_int_digits:
  "digits ds \<Longrightarrow> ds \<noteq> [] \<Longrightarrow> length ds \<le> max_str_digits \<Longrightarrow>
   py_int ds = Inr (int (dec_value 0 ds))"
proof -
  assume d: "digits ds" and ne: "ds \<noteq> []" and len: "length ds \<le> max_str_digits"
  from d have f: "filter is_digit ds = ds" by (simp add: digits_def)
  from d ne have s: "strip ds = ds"
    by (intro strip_no_space) (auto simp: digits_def is_digit_not_space)
  from ne obtain c cs where ds: "ds = c # cs" by (cases ds) auto
  with d have "is_digit c" by (simp add: digits_def)
  then have "c \<noteq> CHR ''-''" "c \<noteq> CHR ''+''" using is_digit_not_sign by auto
  then have "int_literal ds = map_option int (nat_literal ds)"
    by (simp add: int_literal_def ds)
  with d ne s f len show ?thesis
    by (simp add: py_int_def nat_literal_digits)
qed

lemma length_str_nat: "n < 10 ^ k \<Longrightarrow> 0 < k \<Longrightarrow> length (str_nat n) \<le> k"
proof (induction n arbitrary: k rule: str_nat.induct)
  case (1 n)
  show ?case
  proof (cases "n < 10")
    case True
    with "1.prems" show ?thesis by (subst str_nat.simps) simp
  next
    case False
    from "1.prems" obtain j where k: "k = Suc j" by (cases k) auto
    have "0 < j"
    proof (rule ccontr)
      assume "\<not> 0 < j"
      with k "1.prems" False show False by simp
    qed
    moreover from "1.prems" k have "n div 10 < 10 ^ j"
      by (simp add: less_mult_imp_div_less mult.commute)
    ultimately have "length (str_nat (n div 10)) \<le> j"
      using False "1.IH" by simp
    with False k show ?thesis by (subst str_nat.simps) simp
  qed
qed

lemma length_str_nat_11: "n < 100000000000 \<Longrightarrow> length (str_nat n) \<le> 11"
  using length_str_nat [of n 11] by simp

lemma py_int_str_nat: "n < 100000000000 \<Longrightarrow> py_int (str_nat n) = Inr (int n)"
proof -
  assume "n < 100000000000"
  then have "length (str_nat n) \<le> max_str_digits"
    using length_str_nat_11 [of n] by (simp add: max_str_digits_def)
  then show ?thesis
    by (simp add: py_int_digits digits_str_nat str_nat_nonempty dec_value_str_nat)
qed


lemma digit_chr_0: "digit_chr 0 = CHR ''0''"
  unfolding digit_chr_def by code_simp

lemma str_nat_small: "n < 10 \<Longrightarrow> str_nat n = [digit_chr n]"
  by (subst str_nat.simps) simp

lemma fmt_0d_two: "n < 100 \<Longrightarrow> fmt_0d 2 (int n) = two_digits n"
proof (cases "n < 10")
  case True
  then show ?thesis
    by (simp add: fmt_0d_def two_digits_def str_nat_small digit_chr_0)
next
  case False
  assume "n < 100"
  with False have "str_nat n = [digit_chr (n div 10), digit_chr (n mod 10)]"
    by (subst str_nat.simps) (simp add: str_nat_small)
  then show ?thesis
    by (simp add: fmt_0d_def two_digits_def)
qed

lemma digits_two_digits: "n < 100 \<Longrightarrow> digits (two_digits n)"
  by (simp add: digits_def two_digits_def is_digit_digit_chr)

lemma py_int_two_digits: "n < 100 \<Longrightarrow> py_int (two_digits n) = Inr (int n)"
proof -
  assume n: "n < 100"
  then have "dec_value 0 (two_digits n) = n"
    by (simp add: dec_value_def two_digits_def digit_val_digit_chr)
  moreover have "two_digits n \<noteq> []" by (simp add: two_digits_def)
  moreover have "length (two_digits n) \<le> max_str_digits"
    by (simp add: two_digits_def max_str_digits_def)
  ultimately show ?thesis
    using n py_int_digits [of "two_digits n"] by (simp add: digits_two_digits)
qed

lemma digits_no_sep: "digits ds \<Longrightarrow> CHR '':'' \<notin> set ds \<and> CHR '' '' \<notin> set ds"
  by (auto simp: digits_def is_digit_def)

lemma split_hms_text:
  assumes "m < 100" "s < 100"
  shows "split_chr CHR '':'' (hms_text h m s) = [str_nat h, two_digits m, two_digits s]"
proof -
  have 1: "CHR '':'' \<notin> set (str_nat h)" using digits_no_sep digits_str_nat by blast
  have 2: "CHR '':'' \<notin> set (two_digits m)" using digits_no_sep digits_two_digits assms by blast
  have 3: "CHR '':'' \<notin> set (two_digits s)" using digits_no_sep digits_two_digits assms by blast
  show ?thesis
    unfolding hms_text_def using 1 2 3
    by (simp add: split_chr_first split_chr_absent)
qed

lemma no_space_hms_text:
  assumes "m < 100" "s < 100"
  shows "CHR '' '' \<notin> set (hms_text h m s)"
proof -
  have "CHR '' '' \<notin> set (str_nat h)" using digits_no_sep digits_str_nat by blast
  moreover have "CHR '' '' \<notin> set (two_digits m)" using digits_no_sep digits_two_digits assms by blast
  moreover have "CHR '' '' \<notin> set (two_digits s)" using digits_no_sep digits_two_digits assms by blast
  ultimately show ?thesis by (simp add: hms_text_def)
qed

subsection \<open>Durations and their text\<close>

lemma timedelta_hms_nat:
  assumes "m < 60" "s < 60" "h div 24 \<le> 999999999"
  shows "timedelta_hms (int h) (int m) (int s)
           = Inr \<lparr>days = int (h div 24), seconds = int ((h mod 24) * 3600 + m * 60 + s), microseconds = 0\<rparr>"
proof -
  let ?t = "int h * 3600 + int m * 60 + int s"
  let ?r = "int ((h mod 24) * 3600 + m * 60 + s)"
  have h: "h = 24 * (h div 24) + h mod 24" by simp
  have "int h = 24 * int (h div 24) + int (h mod 24)"
    by (metis h of_nat_add of_nat_mult of_nat_numeral)
  then have eq: "?t = 86400 * int (h div 24) + ?r" by simp
  have lt: "h mod 24 < 24" by simp
  have r0: "0 \<le> ?r" by simp
  have "(h mod 24) * 3600 + m * 60 + s < 86400" using assms lt by linarith
  then have r1: "?r < 86400" by linarith
  have d: "?t div 86400 = int (h div 24)"
    using eq r0 r1 by (simp only: int_div_pos_eq)
  have md: "?t mod 86400 = ?r"
    using eq r0 r1 by (simp only: int_mod_pos_eq)
  have b: "\<not> \<bar>int (h div 24)\<bar> > 999999999" using assms by simp
  show ?thesis
    unfolding timedelta_hms_def new_timedelta_def Let_def
    using d md b by simp
qed

lemma str_int_nat: "str_int (int n) = str_nat n"
  by (simp add: str_int_def)

lemma str_timedelta_hms:
  assumes "m < 60" "s < 60" "k < 24"
  shows "str_timedelta \<lparr>days = int d, seconds = int (k * 3600 + m * 60 + s), microseconds = 0\<rparr>
           = (if d = 0 then hms_text k m s
              else str_nat d @ '' day'' @ (if d \<noteq> 1 then ''s'' else []) @ '', '' @ hms_text k m s)"
proof -
  let ?sec = "int (k * 3600 + m * 60 + s)"
  let ?min = "int (k * 60 + m)"
  have e1: "?sec = 60 * ?min + int s" by simp
  have e2: "?min = 60 * int k + int m" by simp
  have s0: "0 \<le> int s" "int s < 60" using assms by simp_all
  have m0: "0 \<le> int m" "int m < 60" using assms by simp_all
  have ia: "?sec div 60 = ?min" using e1 s0 by (simp only: int_div_pos_eq)
  have ib: "?sec mod 60 = int s" using e1 s0 by (simp only: int_mod_pos_eq)
  have ic: "?min div 60 = int k" using e2 m0 by (simp only: int_div_pos_eq)
  have ie: "?min mod 60 = int m" using e2 m0 by (simp only: int_mod_pos_eq)
  have m2: "fmt_0d 2 (int m) = two_digits m" using assms by (simp add: fmt_0d_two)
  have s2: "fmt_0d 2 (int s) = two_digits s" using assms by (simp add: fmt_0d_two)
  have abs1: "\<bar>int d\<bar> \<noteq> 1 \<longleftrightarrow> d \<noteq> 1" by simp
  have d0: "int d \<noteq> 0 \<longleftrightarrow> d \<noteq> 0" by simp
  show ?thesis
    unfolding str_timedelta_def Let_def timedelta.simps ia ib ic ie m2 s2 str_int_nat hms_text_def abs1 d0
    by simp
qed

lemma split_space_days:
  assumes "CHR '' '' \<notin> set a" "CHR '' '' \<notin> set t"
  shows "split_chr CHR '' '' (a @ '' day'' @ (if p then ''s'' else []) @ '', '' @ t)
           = [a, ''day'' @ (if p then ''s'' else []) @ '','', t]"
proof -
  have "CHR '' '' \<notin> set (''day'' @ (if p then ''s'' else []) @ '','')" by simp
  then have "split_chr CHR '' '' ((''day'' @ (if p then ''s'' else []) @ '','') @ CHR '' '' # t)
               = (''day'' @ (if p then ''s'' else []) @ '','') # split_chr CHR '' '' t"
    by (rule split_chr_first)
  moreover have "split_chr CHR '' '' (a @ CHR '' '' # (''day'' @ (if p then ''s'' else []) @ '','') @ CHR '' '' # t)
                   = a # split_chr CHR '' '' ((''day'' @ (if p then ''s'' else []) @ '','') @ CHR '' '' # t)"
    using assms(1) by (rule split_chr_first)
  ultimately show ?thesis
    using assms(2) by (simp add: split_chr_absent)
qed

lemma join_two: "join '':'' [a, b] = a @ '':'' @ b"
  by simp

lemma timedelta_to_time_hms:
  assumes "m < 60" "s < 60" "k < 24" and dl: "d < 100000000000"
  shows "timedelta_to_time \<lparr>days = int d, seconds = int (k * 3600 + m * 60 + s), microseconds = 0\<rparr>
           = Inr (hms_text (k + 24 * d) m s)"
proof (cases "d = 0")
  case True
  let ?td = "\<lparr>days = int d, seconds = int (k * 3600 + m * 60 + s), microseconds = 0\<rparr>"
  have st: "str_timedelta ?td = hms_text k m s"
    using str_timedelta_hms [OF assms(1-3), of d] True by simp
  have "split_chr CHR '' '' (hms_text k m s) = [hms_text k m s]"
    using assms by (intro split_chr_absent no_space_hms_text) simp_all
  then have sp: "split_chr CHR '' '' (str_timedelta ?td) = [hms_text k m s]"
    by (simp only: st)
  have sc: "split_chr CHR '':'' (hms_text k m s) = [str_nat k, two_digits m, two_digits s]"
    using assms by (intro split_hms_text) simp_all
  have "timedelta_to_time ?td = Inr (str_nat k @ '':'' @ two_digits m @ '':'' @ two_digits s)"
    unfolding timedelta_to_time_def sp Let_def by (simp add: sc)
  then show ?thesis using True by (simp add: hms_text_def)
next
  case False
  let ?td = "\<lparr>days = int d, seconds = int (k * 3600 + m * 60 + s), microseconds = 0\<rparr>"
  let ?t = "hms_text k m s"
  let ?mid = "''day'' @ (if d \<noteq> 1 then ''s'' else []) @ '',''"
  have st: "str_timedelta ?td = str_nat d @ '' day'' @ (if d \<noteq> 1 then ''s'' else []) @ '', '' @ ?t"
    using str_timedelta_hms [OF assms(1-3), of d] False by simp
  have nt: "CHR '' '' \<notin> set ?t" using assms by (intro no_space_hms_text) simp_all
  have na: "CHR '' '' \<notin> set (str_nat d)" using digits_no_sep digits_str_nat by blast
  have "split_chr CHR '' '' (str_nat d @ '' day'' @ (if d \<noteq> 1 then ''s'' else []) @ '', '' @ ?t)
              = [str_nat d, ?mid, ?t]"
    using na nt by (rule split_space_days)
  then have sp: "split_chr CHR '' '' (str_timedelta ?td) = [str_nat d, ?mid, ?t]"
    by (simp only: st)
  have sc: "split_chr CHR '':'' ?t = [str_nat k, two_digits m, two_digits s]"
    using assms by (intro split_hms_text) simp_all
  have hrs: "str_int (int k + 24 * int d) = str_nat (k + 24 * d)"
    using str_int_nat [of "k + 24 * d"] by simp
  have pk: "py_int (str_nat k) = Inr (int k)" using assms(3) by (intro py_int_str_nat) simp
  have pd: "py_int (str_nat d) = Inr (int d)" using dl by (rule py_int_str_nat)
  have "timedelta_to_time ?td
          = Inr (str_int (int k + 24 * int d) @ '':'' @ two_digits m @ '':'' @ two_digits s)"
    unfolding timedelta_to_time_def sp Let_def by (simp add: sc pk pd)
  then show ?thesis by (simp add: hrs hms_text_def)
qed

lemma char_of_digits:
  "char_of (48::nat) = CHR ''0''" "char_of (49::nat) = CHR ''1''" "char_of (50::nat) = CHR ''2''"
  "char_of (51::nat) = CHR ''3''" "char_of (52::nat) = CHR ''4''" "char_of (53::nat) = CHR ''5''"
  "char_of (54::nat) = CHR ''6''" "char_of (55::nat) = CHR ''7''" "char_of (56::nat) = CHR ''8''"
  "char_of (57::nat) = CHR ''9''"
  by code_simp+

lemma str_nat_24000000000: "str_nat 24000000000 = ''24000000000''"
  by (simp add: str_nat.simps digit_chr_def char_of_digits)

lemma two_digits_0: "two_digits 0 = ''00''"
  by (simp add: two_digits_def digit_chr_def char_of_digits)

lemma hms_text_24000000000: "hms_text 24000000000 0 0 = ''24000000000:00:00''"
  by (simp add: hms_text_def str_nat_24000000000 two_digits_0)

lemma time_to_timedelta_overflow:
  assumes "m < 60" "s < 60" "h div 24 > 999999999" and hl: "h < 100000000000"
  shows "time_to_timedelta (hms_text h m s) = Inl OverflowError"
proof -
  let ?t = "int h * 3600 + int m * 60 + int s"
  let ?r = "int ((h mod 24) * 3600 + m * 60 + s)"
  have "int h = 24 * int (h div 24) + int (h mod 24)"
    by (metis mult_div_mod_eq of_nat_add of_nat_mult of_nat_numeral)
  then have eq: "?t = 86400 * int (h div 24) + ?r" by simp
  have lt: "h mod 24 < 24" by simp
  have r0: "0 \<le> ?r" by simp
  have "(h mod 24) * 3600 + m * 60 + s < 86400" using assms lt by linarith
  then have r1: "?r < 86400" by linarith
  have d: "?t div 86400 = int (h div 24)"
    using eq r0 r1 by (simp only: int_div_pos_eq)
  have b: "\<bar>int (h div 24)\<bar> > 999999999" using assms by simp
  have hms: "timedelta_hms (int h) (int m) (int s) = Inl OverflowError"
    unfolding timedelta_hms_def new_timedelta_def Let_def
    using d b by simp
  have sc: "split_chr CHR '':'' (hms_text h m s) = [str_nat h, two_digits m, two_digits s]"
    using assms by (intro split_hms_text) simp_all
  have pm: "py_int (two_digits m) = Inr (int m)" using assms by (intro py_int_two_digits) simp
  have ps: "py_int (two_digits s) = Inr (int s)" using assms by (intro py_int_two_digits) simp
  have ph: "py_int (str_nat h) = Inr (int h)" using hl by (rule py_int_str_nat)
  show ?thesis
    unfolding time_to_timedelta_def sc
    by (simp add: ph pm ps hms)
qed

lemma time_to_timedelta_hms:
  assumes "m < 60" "s < 60" "h < 24000000000"
  shows "time_to_timedelta (hms_text h m s)
           = Inr \<lparr>days = int (h div 24), seconds = int ((h mod 24) * 3600 + m * 60 + s),
                  microseconds = 0\<rparr>"
proof -
  from assms(3) have d: "h div 24 \<le> 999999999" by simp
  have sc: "split_chr CHR '':'' (hms_text h m s) = [str_nat h, two_digits m, two_digits s]"
    using assms by (intro split_hms_text) simp_all
  have pm: "py_int (two_digits m) = Inr (int m)" using assms by (intro py_int_two_digits) simp
  have ps: "py_int (two_digits s) = Inr (int s)" using assms by (intro py_int_two_digits) simp
  have ph: "py_int (str_nat h) = Inr (int h)" using assms(3) by (intro py_int_str_nat) simp
  show ?thesis
    unfolding time_to_timedelta_def sc
    by (simp add: ph pm ps timedelta_hms_nat [OF assms(1,2) d])
qed

text \<open>
  C3 (the code departs from it). With two components both are padded and \<open>0:\<close> is
  prefixed, and a three-component text whose minutes and seconds already have two digits is
  unchanged. With three components and a one-digit minute or second, the padded value is
  written at the index it has in the slice of the last two components, that is over the
  hours and the minutes: \<open>45:1:3\<close> becomes \<open>01:03:3\<close>, not \<open>45:01:03\<close>.
\<close>

theorem format_time_examples:
  "format_time ''5:9'' = ''0:05:09''
   \<and> format_time ''45:12:30'' = ''45:12:30''
   \<and> format_time ''45:1:3'' = ''01:03:3''"
  by code_simp

text \<open>
  C4, amended. For hours \<open>h\<close> below 24000000000 (a duration within the 999999999 days
  that a timedelta can hold), written in decimal without leading zeros, and minutes and
  seconds below 60 written with two digits, \<open>time_to_timedelta\<close> of the text returns the
  duration of \<open>h div 24\<close> days, and \<open>timedelta_to_time\<close> of that duration is the text
  again, the days folded into the hours at 24 hours a day.
\<close>

theorem time_roundtrip:
  assumes "m < 60" and "s < 60" and "h < 24000000000"
  shows "time_to_timedelta (hms_text h m s)
           = Inr \<lparr>days = int (h div 24), seconds = int ((h mod 24) * 3600 + m * 60 + s),
                  microseconds = 0\<rparr>
         \<and> timedelta_to_time \<lparr>days = int (h div 24),
                seconds = int ((h mod 24) * 3600 + m * 60 + s), microseconds = 0\<rparr>
           = Inr (hms_text h m s)"
proof -
  have t: "time_to_timedelta (hms_text h m s)
             = Inr \<lparr>days = int (h div 24), seconds = int ((h mod 24) * 3600 + m * 60 + s),
                    microseconds = 0\<rparr>"
    using assms by (rule time_to_timedelta_hms)
  have k: "h mod 24 < 24" by simp
  have dl: "h div 24 < 100000000000" using assms(3) by simp
  have "timedelta_to_time \<lparr>days = int (h div 24), seconds = int ((h mod 24) * 3600 + m * 60 + s),
            microseconds = 0\<rparr>
          = Inr (hms_text (h mod 24 + 24 * (h div 24)) m s)"
    using assms(1,2) k dl by (rule timedelta_to_time_hms)
  with t show ?thesis by simp
qed

lemma hms_text_25_03_07: "hms_text 25 3 7 = ''25:03:07''"
  by (simp add: hms_text_def two_digits_def str_nat.simps digit_chr_def char_of_digits)

theorem time_roundtrip_witness:
  "(3::nat) < 60 \<and> (7::nat) < 60 \<and> (25::nat) < 24000000000
   \<and> time_to_timedelta ''25:03:07'' = Inr \<lparr>days = 1, seconds = 3787, microseconds = 0\<rparr>
   \<and> timedelta_to_time \<lparr>days = 1, seconds = 3787, microseconds = 0\<rparr> = Inr ''25:03:07''"
  using time_roundtrip [of 3 7 25] by (simp add: hms_text_25_03_07)

text \<open>
  The claim as stated, for every well-formed text, fails in two ways. At 24000000000
  hours \<open>time_to_timedelta\<close> returns no duration but raises OverflowError. And hours
  written with a leading zero come back without it: \<open>05:00:00\<close> becomes \<open>5:00:00\<close>.
\<close>

lemma leading_zero_hours:
  "time_to_timedelta ''05:00:00'' = Inr \<lparr>days = 0, seconds = 18000, microseconds = 0\<rparr>
   \<and> timedelta_to_time \<lparr>days = 0, seconds = 18000, microseconds = 0\<rparr> = Inr ''5:00:00''"
  by code_simp

theorem time_roundtrip_counterexample:
  "time_to_timedelta ''24000000000:00:00'' = Inl OverflowError
   \<and> time_to_timedelta ''05:00:00'' = Inr \<lparr>days = 0, seconds = 18000, microseconds = 0\<rparr>
   \<and> timedelta_to_time \<lparr>days = 0, seconds = 18000, microseconds = 0\<rparr> = Inr ''5:00:00''"
  using time_to_timedelta_overflow [of 0 0 24000000000] leading_zero_hours
  by (simp add: hms_text_24000000000)

subsection \<open>Adding times\<close>

lemma div_mod_million:
  "((x::int) * 1000000 + u) div 1000000 = x + u div 1000000"
  "((x::int) * 1000000 + u) mod 1000000 = u mod 1000000"
  by simp_all

lemma div_mod_day:
  "((x::int) * 86400 + u) div 86400 = x + u div 86400"
  "((x::int) * 86400 + u) mod 86400 = u mod 86400"
  by simp_all

lemma timedelta_add_sum: "timedelta_add a b = duration_sum a b"
proof -
  let ?D = "days a + days b"
  let ?S = "seconds a + seconds b"
  let ?U = "microseconds a + microseconds b"
  let ?n = "total_microseconds a + total_microseconds b"
  have n: "?n = (?D * 86400 + ?S) * 1000000 + ?U"
    by (simp add: total_microseconds_def algebra_simps)
  have q: "?n div 1000000 = ?D * 86400 + (?S + ?U div 1000000)"
    by (simp only: n div_mod_million add.assoc)
  have r: "?n mod 1000000 = ?U mod 1000000"
    by (simp only: n div_mod_million)
  have "?n div (1000000 * 86400) = ?n div 1000000 div 86400"
    by (rule zdiv_zmult2_eq) simp
  then have "?n div 86400000000 = ?n div 1000000 div 86400" by simp
  then have d: "?n div 86400000000 = ?D + (?S + ?U div 1000000) div 86400"
    by (simp only: q div_mod_day)
  have m: "?n div 1000000 mod 86400 = (?S + ?U div 1000000) mod 86400"
    by (simp only: q div_mod_day)
  show ?thesis
    unfolding timedelta_add_def new_timedelta_def duration_sum_def Let_def d m r
    by simp
qed

lemma length_two_digits: "length (two_digits n) = 2"
  by (simp add: two_digits_def)

lemma format_time_hms_text:
  assumes "m < 100" "s < 100"
  shows "format_time (hms_text h m s) = hms_text h m s"
proof -
  have sc: "split_chr CHR '':'' (hms_text h m s) = [str_nat h, two_digits m, two_digits s]"
    using assms by (rule split_hms_text)
  show ?thesis
    unfolding format_time_def sc
    by (simp add: Let_def length_two_digits hms_text_def)
qed

lemma length_str_nat_1: "length (str_nat n) = 1 \<longleftrightarrow> n < 10"
proof (cases "n < 10")
  case True
  then show ?thesis by (simp add: str_nat_small)
next
  case False
  have "length (str_nat n) = Suc (length (str_nat (n div 10)))"
    using False by (subst str_nat.simps) simp
  moreover have "str_nat (n div 10) \<noteq> []" by (rule str_nat_nonempty)
  ultimately show ?thesis using False by (cases "str_nat (n div 10)") auto
qed

lemma pad_two_digits:
  assumes "n < 100"
  shows "(if length (str_nat n) = 1 then ''0'' @ str_nat n else str_nat n) = two_digits n"
proof (cases "n < 10")
  case True
  then show ?thesis
    by (simp add: length_str_nat_1 str_nat_small two_digits_def digit_chr_0)
next
  case False
  with assms have "str_nat n = [digit_chr (n div 10), digit_chr (n mod 10)]"
    by (subst str_nat.simps) (simp add: str_nat_small)
  with False show ?thesis
    by (simp add: length_str_nat_1 two_digits_def)
qed

lemma str_nat_0: "str_nat 0 = ''0''"
  by (simp add: str_nat_small digit_chr_0)

lemma format_time_loose_text:
  assumes "m < 100" "s < 100"
  shows "format_time (loose_text m s) = hms_text 0 m s"
proof -
  have 1: "CHR '':'' \<notin> set (str_nat m)" using digits_no_sep digits_str_nat by blast
  have 2: "CHR '':'' \<notin> set (str_nat s)" using digits_no_sep digits_str_nat by blast
  have sc: "split_chr CHR '':'' (loose_text m s) = [str_nat m, str_nat s]"
    unfolding loose_text_def using 1 2 by (simp add: split_chr_first split_chr_absent)
  let ?pm = "if length (str_nat m) = 1 then ''0'' @ str_nat m else str_nat m"
  let ?ps = "if length (str_nat s) = 1 then ''0'' @ str_nat s else str_nat s"
  have "format_time (loose_text m s) = ''0:'' @ ?pm @ '':'' @ ?ps"
    unfolding format_time_def sc by (simp add: Let_def)
  also have "\<dots> = ''0:'' @ two_digits m @ '':'' @ two_digits s"
    by (simp only: pad_two_digits [OF assms(1)] pad_two_digits [OF assms(2)])
  finally show ?thesis by (simp add: hms_text_def str_nat_0)
qed

lemma seconds_split:
  "(t::nat) mod 86400 = (t div 3600 mod 24) * 3600 + (t div 60 mod 60) * 60 + t mod 60"
proof -
  have "t mod (3600 * 24) = 3600 * (t div 3600 mod 24) + t mod 3600"
    by (rule mod_mult2_eq)
  then have a: "t mod 86400 = 3600 * (t div 3600 mod 24) + t mod 3600" by simp
  have "t mod (60 * 60) = 60 * (t div 60 mod 60) + t mod 60"
    by (rule mod_mult2_eq)
  then have b: "t mod 3600 = 60 * (t div 60 mod 60) + t mod 60" by simp
  show ?thesis by (simp only: a b mult.commute add.assoc)
qed

lemma hours_join: "(t::nat) div 3600 mod 24 + 24 * (t div 86400) = t div 3600"
proof -
  have "t div (3600 * 24) = t div 3600 div 24" by (rule div_mult2_eq)
  then have "t div 86400 = t div 3600 div 24" by simp
  then show ?thesis by simp
qed

lemma timedelta_to_time_seconds:
  assumes "t div 86400 \<le> 999999999"
  shows "timedelta_to_time \<lparr>days = int (t div 86400), seconds = int (t mod 86400), microseconds = 0\<rparr>
           = Inr (hms_of_seconds t)"
proof -
  let ?k = "t div 3600 mod 24" and ?m = "t div 60 mod 60" and ?s = "t mod 60"
  have "timedelta_to_time \<lparr>days = int (t div 86400), seconds = int (?k * 3600 + ?m * 60 + ?s),
            microseconds = 0\<rparr>
          = Inr (hms_text (?k + 24 * (t div 86400)) ?m ?s)"
    using assms by (intro timedelta_to_time_hms) simp_all
  then show ?thesis
    by (simp only: seconds_split [symmetric] hours_join hms_of_seconds_def)
qed

lemma new_timedelta_nat:
  assumes "(86400 * d + r) div 86400 \<le> 999999999"
  shows "new_timedelta (int d) (int r) 0
           = Inr \<lparr>days = int ((86400 * d + r) div 86400), seconds = int ((86400 * d + r) mod 86400),
                  microseconds = 0\<rparr>"
proof -
  have a: "(86400 * d + r) div 86400 = d + r div 86400" by simp
  have b: "(86400 * d + r) mod 86400 = r mod 86400" by simp
  have c: "int d + int r div 86400 = int (d + r div 86400)" by (simp add: zdiv_int)
  have e: "int r mod 86400 = int (r mod 86400)" by (simp add: zmod_int)
  have f: "\<not> \<bar>int (d + r div 86400)\<bar> > 999999999" using assms a by simp
  have z: "(0::int) div 1000000 = 0" "(0::int) mod 1000000 = 0" "int r + 0 = int r"
    by simp_all
  show ?thesis
    unfolding new_timedelta_def Let_def a b
    using f by (simp only: z c e) simp
qed

lemma seconds_of_days: "seconds_of h m s = 86400 * (h div 24) + ((h mod 24) * 3600 + m * 60 + s)"
proof -
  have "h div 24 * 24 + h mod 24 = h" by (rule div_mult_mod_eq)
  then show ?thesis unfolding seconds_of_def by linarith
qed

lemma add_time_normal:
  assumes "m1 < 60" "s1 < 60" "m2 < 60" "s2 < 60" "h1 + h2 < 23999999999"
    and f1: "format_time time1 = hms_text h1 m1 s1"
    and f2: "format_time time2 = hms_text h2 m2 s2"
  shows "add_time time1 time2 = Inr (hms_of_seconds (seconds_of h1 m1 s1 + seconds_of h2 m2 s2))"
proof -
  let ?r1 = "(h1 mod 24) * 3600 + m1 * 60 + s1"
  let ?r2 = "(h2 mod 24) * 3600 + m2 * 60 + s2"
  let ?td1 = "\<lparr>days = int (h1 div 24), seconds = int ?r1, microseconds = 0\<rparr>"
  let ?td2 = "\<lparr>days = int (h2 div 24), seconds = int ?r2, microseconds = 0\<rparr>"
  let ?t = "seconds_of h1 m1 s1 + seconds_of h2 m2 s2"
  let ?d = "h1 div 24 + h2 div 24"
  have t1: "time_to_timedelta (hms_text h1 m1 s1) = Inr ?td1"
    using assms by (intro time_to_timedelta_hms) simp_all
  have t2: "time_to_timedelta (hms_text h2 m2 s2) = Inr ?td2"
    using assms by (intro time_to_timedelta_hms) simp_all
  have t: "?t = 86400 * ?d + (?r1 + ?r2)"
    by (simp only: seconds_of_days [of h1 m1 s1] seconds_of_days [of h2 m2 s2]) simp
  have "?t < 3600 * h1 + 3600 * h2 + 7200"
    using assms(1-4) unfolding seconds_of_def by linarith
  also have "\<dots> \<le> 86400 * 1000000000" using assms(5) by linarith
  finally have "?t div 86400 < 1000000000" by simp
  then have bound: "?t div 86400 \<le> 999999999" by simp
  have "timedelta_add ?td1 ?td2 = new_timedelta (int ?d) (int (?r1 + ?r2)) 0"
    by (simp add: timedelta_add_def)
  also have "\<dots> = Inr \<lparr>days = int ((86400 * ?d + (?r1 + ?r2)) div 86400),
                           seconds = int ((86400 * ?d + (?r1 + ?r2)) mod 86400), microseconds = 0\<rparr>"
    using bound unfolding t by (rule new_timedelta_nat)
  finally have sum: "timedelta_add ?td1 ?td2
      = Inr \<lparr>days = int (?t div 86400), seconds = int (?t mod 86400), microseconds = 0\<rparr>"
    by (simp only: t)
  have out: "timedelta_to_time \<lparr>days = int (?t div 86400), seconds = int (?t mod 86400),
                 microseconds = 0\<rparr> = Inr (hms_of_seconds ?t)"
    using bound by (rule timedelta_to_time_seconds)
  show ?thesis
    unfolding add_time_def f1 f2 t1 t2
    by (simp only: sum.case sum out)
qed

lemma format_time_time_text:
  assumes "time_text t h m s" "m < 60" "s < 60"
  shows "format_time t = hms_text h m s"
proof -
  from assms(1) consider "t = hms_text h m s" | "h = 0" "t = loose_text m s"
    unfolding time_text_def by blast
  then show ?thesis
  proof cases
    case 1
    with assms(2,3) show ?thesis by (simp add: format_time_hms_text)
  next
    case 2
    with assms(2,3) show ?thesis by (simp add: format_time_loose_text)
  qed
qed

text \<open>
  C5. \<open>add_time\<close> is the composition of the specification: both operands normalised with
  \<open>format_time\<close>, each converted with \<open>time_to_timedelta\<close>, the two durations summed (the
  duration whose length is the sum of the two lengths), the sum rendered with
  \<open>timedelta_to_time\<close>; an error of any step is the error of the whole. Hence for two
  operands that are texts of times, in full or loose, the result is the \<^verbatim>\<open>H:MM:SS\<close> text
  of the sum of the two times, as long as the hours add up to less than 23999999999. In
  particular \<open>add_time("1:30", "0:45")\<close> is \<open>0:02:15\<close>.
\<close>

theorem add_time_composition:
  "add_time time1 time2 = add_time_composed time1 time2
   \<and> (time_text ta ha ma sa \<and> time_text tb hb mb sb
        \<and> ma < 60 \<and> sa < 60 \<and> mb < 60 \<and> sb < 60 \<and> ha + hb < 23999999999
      \<longrightarrow> add_time ta tb = Inr (hms_of_seconds (seconds_of ha ma sa + seconds_of hb mb sb)))
   \<and> add_time ''1:30'' ''0:45'' = Inr ''0:02:15''"
proof (intro conjI impI)
  show "add_time time1 time2 = add_time_composed time1 time2"
    unfolding add_time_def add_time_composed_def bind_error_def Let_def timedelta_add_sum ..
next
  assume a: "time_text ta ha ma sa \<and> time_text tb hb mb sb
        \<and> ma < 60 \<and> sa < 60 \<and> mb < 60 \<and> sb < 60 \<and> ha + hb < 23999999999"
  then have "format_time ta = hms_text ha ma sa" "format_time tb = hms_text hb mb sb"
    by (simp_all add: format_time_time_text)
  with a show "add_time ta tb = Inr (hms_of_seconds (seconds_of ha ma sa + seconds_of hb mb sb))"
    by (intro add_time_normal) simp_all
next
  show "add_time ''1:30'' ''0:45'' = Inr ''0:02:15''"
    by code_simp
qed

theorem add_time_composition_witness:
  "time_text ''25:03:07'' 25 3 7 \<and> time_text ''58:55'' 0 58 55
   \<and> add_time ''25:03:07'' ''58:55'' = Inr ''26:02:02''"
proof -
  have a: "time_text ''25:03:07'' 25 3 7" by (simp add: time_text_def hms_text_def loose_text_def two_digits_def str_nat.simps
          digit_chr_def char_of_digits)
  have b: "time_text ''58:55'' 0 58 55" by (simp add: time_text_def hms_text_def loose_text_def two_digits_def str_nat.simps
          digit_chr_def char_of_digits)
  have c: "hms_of_seconds (seconds_of 25 3 7 + seconds_of 0 58 55) = ''26:02:02''"
    by (simp add: hms_of_seconds_def seconds_of_def hms_text_def two_digits_def str_nat.simps
          digit_chr_def char_of_digits)
  have p: "time_text ''25:03:07'' 25 3 7 \<and> time_text ''58:55'' 0 58 55
        \<and> (3::nat) < 60 \<and> (7::nat) < 60 \<and> (58::nat) < 60 \<and> (55::nat) < 60
        \<and> (25::nat) + 0 < 23999999999"
    using a b by simp
  have "add_time ''25:03:07'' ''58:55''
          = Inr (hms_of_seconds (seconds_of 25 3 7 + seconds_of 0 58 55))"
    using add_time_composition
            [of "''25:03:07''" "''58:55''" "''25:03:07''" 25 3 7 "''58:55''" 0 58 55,
             THEN conjunct2, THEN conjunct1] p
    by (rule mp)
  with a b c show ?thesis by simp
qed

subsection \<open>The scan for a day and a month\<close>

lemma slice2: "i + 2 \<le> length s \<Longrightarrow> slice s i (i + 2) = [s ! i, s ! (i + 1)]"
proof -
  assume a: "i + 2 \<le> length s"
  then have "drop i s = s ! i # drop (Suc i) s" by (simp add: Cons_nth_drop_Suc)
  moreover from a have "drop (Suc i) s = s ! (Suc i) # drop (Suc (Suc i)) s"
    by (simp add: Cons_nth_drop_Suc)
  ultimately show ?thesis by (simp add: slice_def numeral_2_eq_2)
qed

lemma slice2_tail:
  assumes "i + 5 \<le> length s"
  shows "slice s (i + 3) (i + 5) = [s ! (i + 3), s ! (i + 4)]"
proof -
  have "slice s (i + 3) ((i + 3) + 2) = [s ! (i + 3), s ! ((i + 3) + 1)]"
    using assms by (intro slice2) simp
  moreover have "(i + 3) + 2 = i + 5" "(i + 3) + 1 = i + 4" by simp_all
  ultimately show ?thesis by (simp only:)
qed

lemma slice5:
  "i + 5 \<le> length s \<Longrightarrow>
   slice s i (i + 5) = [s ! i, s ! (i + 1), s ! (i + 2), s ! (i + 3), s ! (i + 4)]"
proof -
  assume a: "i + 5 \<le> length s"
  have "slice s i (i + 5) = slice s i (i + 2) @ [s ! (i + 2)] @ slice s (i + 3) (i + 5)"
  proof -
    have "take 5 (drop i s) = take 2 (drop i s) @ take 3 (drop (i + 2) s)"
      using take_add [of 2 3 "drop i s"] by (simp add: add.commute)
    moreover have "drop (i + 2) s = s ! (i + 2) # drop (i + 3) s"
      using a Cons_nth_drop_Suc [of "i + 2" s] by (simp add: numeral_3_eq_3)
    moreover have "take 3 (s ! (i + 2) # drop (i + 3) s) = s ! (i + 2) # take 2 (drop (i + 3) s)"
      by (simp add: numeral_3_eq_3 numeral_2_eq_2)
    ultimately show ?thesis by (simp add: slice_def)
  qed
  moreover have "slice s (i + 3) (i + 5) = [s ! (i + 3), s ! (i + 4)]"
    using a by (rule slice2_tail)
  moreover have "slice s i (i + 2) = [s ! i, s ! (i + 1)]"
    using a by (intro slice2) simp
  ultimately show ?thesis by simp
qed

lemma isnumeric_pair: "isnumeric [a, b] \<longleftrightarrow> isnumeric_chr a \<and> isnumeric_chr b"
  by (simp add: isnumeric_def)

lemma isnumeric_chr_not_sep: "isnumeric_chr c \<Longrightarrow> c \<noteq> CHR ''/'' \<and> c \<noteq> CHR ''-''"
  by (auto simp: isnumeric_chr_def Let_def)

lemma split_window:
  assumes "a \<noteq> x" "b \<noteq> x" "c \<noteq> x" "d \<noteq> x"
  shows "unpack2 (split_chr x [a, b, x, c, d]) = Inr ([a, b], [c, d])"
  using assms by (simp add: unpack2_def)

lemma scan_step_window:
  assumes "i + 5 \<le> length s"
  shows "scan_step s i dm = Inr (if date_window s i then window_pair s i else dm)"
proof -
  have s1: "slice s i (i + 2) = [s ! i, s ! (i + 1)]" using assms by (intro slice2) simp
  have s2: "slice s (i + 3) (i + 5) = [s ! (i + 3), s ! (i + 4)]"
    using assms by (rule slice2_tail)
  have s5: "slice s i (i + 5) = [s ! i, s ! (i + 1), s ! (i + 2), s ! (i + 3), s ! (i + 4)]"
    using assms by (rule slice5)
  have n: "py_nth s (i + 2) = Inr (s ! (i + 2))" using assms by simp
  show ?thesis
  proof (cases "isnumeric_chr (s ! i) \<and> isnumeric_chr (s ! (i + 1))
                \<and> isnumeric_chr (s ! (i + 3)) \<and> isnumeric_chr (s ! (i + 4))")
    case False
    then show ?thesis
      unfolding scan_step_def s1 s2 isnumeric_pair date_window_def by auto
  next
    case True
    then have ne: "s ! i \<noteq> CHR ''/''" "s ! (i + 1) \<noteq> CHR ''/''" "s ! (i + 3) \<noteq> CHR ''/''"
      "s ! (i + 4) \<noteq> CHR ''/''" "s ! i \<noteq> CHR ''-''" "s ! (i + 1) \<noteq> CHR ''-''"
      "s ! (i + 3) \<noteq> CHR ''-''" "s ! (i + 4) \<noteq> CHR ''-''"
      using isnumeric_chr_not_sep by blast+
    have num: "isnumeric [s ! i, s ! (i + 1)] \<and> isnumeric [s ! (i + 3), s ! (i + 4)]"
      using True by (simp add: isnumeric_pair)
    consider (slash) "s ! (i + 2) = CHR ''/''" | (dash) "s ! (i + 2) = CHR ''-''"
      | (other) "s ! (i + 2) \<noteq> CHR ''/''" "s ! (i + 2) \<noteq> CHR ''-''" by blast
    then show ?thesis
    proof cases
      case slash
      have "unpack2 (split_chr CHR ''/'' [s ! i, s ! (i + 1), CHR ''/'', s ! (i + 3), s ! (i + 4)])
              = Inr ([s ! i, s ! (i + 1)], [s ! (i + 3), s ! (i + 4)])"
        using ne by (intro split_window) simp_all
      then show ?thesis
        unfolding scan_step_def s1 s2 s5 n
        using num True slash assms by (simp add: date_window_def window_pair_def del: split_chr.simps)
    next
      case dash
      have "unpack2 (split_chr CHR ''-'' [s ! i, s ! (i + 1), CHR ''-'', s ! (i + 3), s ! (i + 4)])
              = Inr ([s ! i, s ! (i + 1)], [s ! (i + 3), s ! (i + 4)])"
        using ne by (intro split_window) simp_all
      then show ?thesis
        unfolding scan_step_def s1 s2 s5 n
        using num True dash assms by (simp add: date_window_def window_pair_def del: split_chr.simps)
    next
      case other
      then show ?thesis
        unfolding scan_step_def s1 s2 s5 n
        using num by (simp add: date_window_def)
    qed
  qed
qed

lemma scan_append:
  "scan s (xs @ ys) dm = (case scan s xs dm of Inl e \<Rightarrow> Inl e | Inr dm' \<Rightarrow> scan s ys dm')"
  by (induction xs arbitrary: dm) (auto split: sum.splits)

lemma scan_upt: "k + 4 \<le> length s \<Longrightarrow> scan s [0 ..< k] dm = Inr (last_pair s k dm)"
proof (induction k)
  case 0
  then show ?case by simp
next
  case (Suc k)
  then have "scan s [0 ..< k] dm = Inr (last_pair s k dm)" by simp
  moreover have "scan_step s k (last_pair s k dm)
                   = Inr (if date_window s k then window_pair s k else last_pair s k dm)"
    using Suc.prems by (intro scan_step_window) simp
  ultimately show ?case by (simp add: scan_append)
qed

lemma last_pair_none: "(\<forall>j < k. \<not> date_window s j) \<Longrightarrow> last_pair s k dm = dm"
  by (induction k) auto

lemma last_pair_last:
  "i < k \<Longrightarrow> date_window s i \<Longrightarrow> (\<forall>j. i < j \<and> j < k \<longrightarrow> \<not> date_window s j) \<Longrightarrow>
   last_pair s k dm = window_pair s i"
proof (induction k)
  case 0
  then show ?case by simp
next
  case (Suc k)
  show ?case
  proof (cases "i = k")
    case True
    with Suc.prems show ?thesis by simp
  next
    case False
    with Suc.prems have "i < k" by simp
    moreover have "\<not> date_window s k" using Suc.prems \<open>i < k\<close> by simp
    ultimately show ?thesis using Suc by simp
  qed
qed

lemma date_window_numeric:
  "date_window s i \<Longrightarrow> isnumeric (fst (window_pair s i)) \<and> isnumeric (snd (window_pair s i))"
  by (simp add: date_window_def window_pair_def isnumeric_def)

lemma scan_all:
  "scan s [0 ..< length s - 4] dm = Inr (last_pair s (length s - 4) dm)"
proof (cases "4 \<le> length s")
  case True
  then show ?thesis by (intro scan_upt) simp
next
  case False
  then show ?thesis by simp
qed

text \<open>
  C1, amended. \<open>get_day_month\<close> returns the pair of the LAST date window of the text (the
  loop does not stop at a match, so each later window overwrites the pair): the two
  characters before and the two after the separator. If the text has no date window at
  all, it raises ValueError with the message of the source.
\<close>

theorem get_day_month_last_window:
  "(date_window s i \<and> (\<forall>j. i < j \<longrightarrow> \<not> date_window s j)
      \<longrightarrow> get_day_month s = Inr ([s ! i, s ! (i + 1)], [s ! (i + 3), s ! (i + 4)]))
   \<and> ((\<forall>j. \<not> date_window s j) \<longrightarrow> get_day_month s = Inl (ValueError no_date_message))"
proof (intro conjI impI)
  assume a: "date_window s i \<and> (\<forall>j. i < j \<longrightarrow> \<not> date_window s j)"
  then have "i + 5 \<le> length s" by (simp add: date_window_def)
  then have "i < length s - 4" by simp
  with a have "last_pair s (length s - 4) ([], []) = window_pair s i"
    by (intro last_pair_last) simp_all
  moreover have "isnumeric (fst (window_pair s i)) \<and> isnumeric (snd (window_pair s i))"
    using a date_window_numeric by blast
  ultimately show "get_day_month s = Inr ([s ! i, s ! (i + 1)], [s ! (i + 3), s ! (i + 4)])"
    by (simp add: get_day_month_def scan_all window_pair_def)
next
  assume "\<forall>j. \<not> date_window s j"
  then have "last_pair s (length s - 4) ([], []) = ([], [])"
    by (intro last_pair_none) simp
  then show "get_day_month s = Inl (ValueError no_date_message)"
    by (simp add: get_day_month_def scan_all isnumeric_def)
qed

theorem get_day_month_last_window_witness:
  "date_window ''12/07 18/07'' 6
   \<and> \<not> date_window ''12/07 18/07'' 7
   \<and> get_day_month ''12/07 18/07'' = Inr (''18'', ''07'')
   \<and> \<not> date_window ''1/07'' 0
   \<and> get_day_month ''1/07'' = Inl (ValueError no_date_message)"
proof -
  have w: "date_window ''12/07 18/07'' 6" by code_simp
  have l: "\<forall>j. 6 < j \<longrightarrow> \<not> date_window ''12/07 18/07'' j" by (simp add: date_window_def)
  have n: "\<forall>j. \<not> date_window ''1/07'' j" by (simp add: date_window_def)
  show ?thesis
    using w l n get_day_month_last_window [of "''12/07 18/07''" 6]
      get_day_month_last_window [of "''1/07''" 0]
    by simp
qed

text \<open>
  The claim as stated, with the first window, fails on \<open>12/07 18/07\<close>: the first window is
  at offset 0 and holds \<open>12/07\<close>, and the result is not \<open>(12, 07)\<close> (it is \<open>(18, 07)\<close>, as
  the witness above shows).
\<close>

theorem get_day_month_first_window_counterexample:
  "date_window ''12/07 18/07'' 0 \<and> get_day_month ''12/07 18/07'' \<noteq> Inr (''12'', ''07'')"
  by code_simp

subsection \<open>Dates in words\<close>

lemma index_of_nth: "distinct xs \<Longrightarrow> k < length xs \<Longrightarrow> index_of (xs ! k) xs = Some k"
proof (induction xs arbitrary: k)
  case Nil
  then show ?case by simp
next
  case (Cons y ys)
  show ?case
  proof (cases k)
    case 0
    then show ?thesis by simp
  next
    case (Suc j)
    with Cons.prems have "ys ! j \<noteq> y" by auto
    with Suc Cons show ?thesis by simp
  qed
qed

lemma distinct_month_names: "distinct month_names"
  by (simp add: month_names_def)

lemma length_month_names: "length month_names = 12"
  by (simp add: month_names_def)

lemma month_names_no_space: "\<forall>n \<in> set month_names. CHR '' '' \<notin> set n"
  by (simp add: month_names_def)

lemma lower_chr_space: "lower_chr CHR '' '' = CHR '' ''"
  by (simp add: lower_chr_def)

lemma name_no_space:
  assumes "k < 12" "map lower_chr name = month_names ! k"
  shows "CHR '' '' \<notin> set name"
proof
  assume "CHR '' '' \<in> set name"
  then have "lower_chr CHR '' '' \<in> set (map lower_chr name)" by (simp add: image_iff) blast
  then have "CHR '' '' \<in> set (month_names ! k)" using assms by (simp add: lower_chr_space)
  moreover have "month_names ! k \<in> set month_names"
    using assms length_month_names by (intro nth_mem) simp
  ultimately show False using month_names_no_space by blast
qed

lemma strptime_B_month_name:
  assumes "k < 12" "map lower_chr name = month_names ! k"
  shows "strptime_B_month name = Inr (int k + 1)"
  using assms index_of_nth [OF distinct_month_names, of k]
  by (simp add: strptime_B_month_def length_month_names)

lemma month_text:
  assumes "k < 12"
  shows "(if int k + 1 < 10 then ''0'' @ str_int (int k + 1) else str_int (int k + 1)) = two_digits (Suc k)"
proof -
  have e: "int k + 1 = int (Suc k)" by simp
  have f: "fmt_0d 2 (int (Suc k)) = two_digits (Suc k)" using assms by (intro fmt_0d_two) simp
  show ?thesis
  proof (cases "Suc k < 10")
    case True
    then have "str_nat (Suc k) = [digit_chr (Suc k)]" by (rule str_nat_small)
    with True show ?thesis
      unfolding e str_int_nat by (simp add: two_digits_def digit_chr_0)
  next
    case False
    then have "str_nat (Suc k) = [digit_chr (Suc k div 10), digit_chr (Suc k mod 10)]"
      using assms by (subst str_nat.simps) (simp add: str_nat_small)
    with False show ?thesis
      unfolding e str_int_nat by (simp add: two_digits_def)
  qed
qed

text \<open>
  C7. For a text \<open>D Month YYYY\<close> whose three parts are separated by single spaces (so day
  and year hold no space) and whose month is a full English month name, the \<open>k\<close>-th of
  the year counted from 0, in any capitalisation, \<open>convert_date\<close> returns the year, the
  month number \<open>k + 1\<close> with two digits and the day exactly as given, joined by hyphens.
\<close>

theorem convert_date_spec:
  assumes "k < 12" and "map lower_chr name = month_names ! k"
    and "CHR '' '' \<notin> set day" and "CHR '' '' \<notin> set year"
  shows "convert_date (day @ '' '' @ name @ '' '' @ year)
           = Inr (year @ ''-'' @ two_digits (Suc k) @ ''-'' @ day)"
proof -
  have nn: "CHR '' '' \<notin> set name" using assms(1,2) by (rule name_no_space)
  have "split_chr CHR '' '' (day @ CHR '' '' # name @ CHR '' '' # year)
          = day # split_chr CHR '' '' (name @ CHR '' '' # year)"
    using assms(3) by (rule split_chr_first)
  also have "split_chr CHR '' '' (name @ CHR '' '' # year) = name # split_chr CHR '' '' year"
    using nn by (rule split_chr_first)
  also have "split_chr CHR '' '' year = [year]" using assms(4) by (rule split_chr_absent)
  finally have sp: "split_chr CHR '' '' (day @ '' '' @ name @ '' '' @ year) = [day, name, year]"
    by simp
  have mo: "strptime_B_month name = Inr (int k + 1)"
    using assms(1,2) by (rule strptime_B_month_name)
  have mt: "(if int k + 1 < 10 then ''0'' @ str_int (int k + 1) else str_int (int k + 1))
              = two_digits (Suc k)"
    using assms(1) by (rule month_text)
  have "convert_date (day @ '' '' @ name @ '' '' @ year)
          = (case strptime_B_month name of
               Inl e \<Rightarrow> Inl e
             | Inr month \<Rightarrow>
                 let month = (if month < 10 then ''0'' @ str_int month else str_int month)
                 in Inr (join ''-'' [year, month, day]))"
    unfolding convert_date_def sp by simp
  also have "\<dots> = Inr (join ''-'' [year,
                 (if int k + 1 < 10 then ''0'' @ str_int (int k + 1) else str_int (int k + 1)), day])"
    unfolding mo by (simp only: sum.case Let_def)
  also have "\<dots> = Inr (join ''-'' [year, two_digits (Suc k), day])"
    by (simp only: mt)
  also have "\<dots> = Inr (year @ ''-'' @ two_digits (Suc k) @ ''-'' @ day)"
    by simp
  finally show ?thesis .
qed

theorem convert_date_spec_witness:
  "(6::nat) < 12 \<and> map lower_chr ''July'' = month_names ! 6
   \<and> CHR '' '' \<notin> set ''30'' \<and> CHR '' '' \<notin> set ''2022''
   \<and> convert_date ''30 July 2022'' = Inr ''2022-07-30''"
proof -
  have n: "map lower_chr ''July'' = month_names ! 6" by code_simp
  have t: "two_digits 7 = ''07''" by code_simp
  have "convert_date (''30'' @ '' '' @ ''July'' @ '' '' @ ''2022'')
          = Inr (''2022'' @ ''-'' @ two_digits (Suc 6) @ ''-'' @ ''30'')"
    using n by (intro convert_date_spec) simp_all
  then show ?thesis using n by (simp add: t)
qed

subsection \<open>The URL patterns\<close>

lemma conc_Nil: "[] \<in> conc A B \<longleftrightarrow> [] \<in> A \<and> [] \<in> B"
  by (auto simp: conc_def)

lemma nullable_lang: "nullable r \<longleftrightarrow> [] \<in> lang r"
  by (induction r) (auto simp: conc_Nil intro: star.star_empty)

lemma left_quotient_conc:
  "{w. c # w \<in> conc A B} = conc {w. c # w \<in> A} B \<union> (if [] \<in> A then {w. c # w \<in> B} else {})"
proof (intro equalityI subsetI)
  fix w assume "w \<in> {w. c # w \<in> conc A B}"
  then obtain u v where uv: "c # w = u @ v" "u \<in> A" "v \<in> B" by (auto simp: conc_def)
  show "w \<in> conc {w. c # w \<in> A} B \<union> (if [] \<in> A then {w. c # w \<in> B} else {})"
  proof (cases u)
    case Nil
    with uv show ?thesis by auto
  next
    case (Cons a u')
    with uv have "a = c" "w = u' @ v" "c # u' \<in> A" by auto
    with uv(3) have "w \<in> conc {w. c # w \<in> A} B" by (auto simp: conc_def)
    then show ?thesis by simp
  qed
next
  fix w assume a: "w \<in> conc {w. c # w \<in> A} B \<union> (if [] \<in> A then {w. c # w \<in> B} else {})"
  show "w \<in> {w. c # w \<in> conc A B}"
  proof (cases "w \<in> conc {w. c # w \<in> A} B")
    case True
    then obtain u v where "w = u @ v" "c # u \<in> A" "v \<in> B" by (auto simp: conc_def)
    then have "c # w = (c # u) @ v \<and> c # u \<in> A \<and> v \<in> B" by simp
    then show ?thesis unfolding conc_def by blast
  next
    case False
    with a have "[] \<in> A" "c # w \<in> B" by (auto split: if_splits)
    then have "c # w = [] @ (c # w) \<and> [] \<in> A \<and> c # w \<in> B" by simp
    then show ?thesis unfolding conc_def by blast
  qed
qed

lemma star_Cons:
  "x \<in> star A \<Longrightarrow> x = c # w \<Longrightarrow> w \<in> conc {w. c # w \<in> A} (star A)"
proof (induction arbitrary: w rule: star.induct)
  case star_empty
  then show ?case by simp
next
  case (star_more u v)
  show ?case
  proof (cases u)
    case Nil
    with star_more show ?thesis by simp
  next
    case (Cons a u')
    with star_more.prems have "a = c" "w = u' @ v" by auto
    moreover from Cons \<open>a = c\<close> star_more.hyps(1) have "c # u' \<in> A" by simp
    ultimately show ?thesis using star_more.hyps(2) by (auto simp: conc_def)
  qed
qed

lemma left_quotient_star: "{w. c # w \<in> star A} = conc {w. c # w \<in> A} (star A)"
proof (intro equalityI subsetI)
  fix w assume "w \<in> {w. c # w \<in> star A}"
  then show "w \<in> conc {w. c # w \<in> A} (star A)" using star_Cons by blast
next
  fix w assume "w \<in> conc {w. c # w \<in> A} (star A)"
  then obtain u v where uv: "w = u @ v" "c # u \<in> A" "v \<in> star A" by (auto simp: conc_def)
  then have "(c # u) @ v \<in> star A" by (intro star.star_more)
  with uv show "w \<in> {w. c # w \<in> star A}" by simp
qed

lemma lang_deriv: "lang (deriv c r) = {w. c # w \<in> lang r}"
proof (induction r)
  case (Cat r s)
  then show ?case
    by (simp add: left_quotient_conc nullable_lang)
next
  case (Star r)
  then show ?case
    by (simp add: left_quotient_star)
qed auto

lemma fullmatch_lang: "fullmatch r w \<longleftrightarrow> w \<in> lang r"
  by (induction w arbitrary: r) (simp_all add: nullable_lang lang_deriv)

lemma star_single: "star {[c]} = {replicate n c | n. True}"
proof (intro equalityI subsetI)
  fix w assume "w \<in> star {[c]}"
  then show "w \<in> {replicate n c | n. True}"
  proof (induction rule: star.induct)
    case star_empty
    have "[] = replicate 0 c" by simp
    then show ?case by blast
  next
    case (star_more u v)
    then obtain n where "v = replicate n c" by blast
    with star_more.hyps(1) have "u @ v = replicate (Suc n) c" by simp
    then show ?case by blast
  qed
next
  fix w assume "w \<in> {replicate n c | n. True}"
  then obtain n where w: "w = replicate n c" by blast
  have "replicate n c \<in> star {[c]}"
  proof (induction n)
    case 0
    show ?case by (simp add: star.star_empty)
  next
    case (Suc n)
    have "[c] @ replicate n c \<in> star {[c]}" using Suc by (intro star.star_more) simp
    then show ?case by simp
  qed
  with w show "w \<in> star {[c]}" by simp
qed

lemma lang_slashes: "lang slashes = {replicate n CHR ''/'' | n. 0 < n}"
proof -
  have "lang slashes = conc {[CHR ''/'']} {replicate n CHR ''/'' | n. True}"
    by (simp add: slashes_def plus_def star_single)
  also have "\<dots> = {replicate n CHR ''/'' | n. 0 < n}"
  proof (intro equalityI subsetI)
    fix w assume "w \<in> conc {[CHR ''/'']} {replicate n CHR ''/'' | n. True}"
    then obtain n where "w = replicate (Suc n) CHR ''/''" by (auto simp: conc_def)
    then show "w \<in> {replicate n CHR ''/'' | n. 0 < n}" by blast
  next
    fix w assume "w \<in> {replicate n CHR ''/'' | n. 0 < n}"
    then obtain n where n: "w = replicate n CHR ''/''" "0 < n" by blast
    then obtain m where "n = Suc m" by (cases n) auto
    with n have "w = [CHR ''/''] @ replicate m CHR ''/''" by simp
    then show "w \<in> conc {[CHR ''/'']} {replicate n CHR ''/'' | n. True}"
      unfolding conc_def by blast
  qed
  finally show ?thesis .
qed

lemma leading_slashes:
  assumes "fullmatch (Cat slashes b) w"
  shows "\<exists>n v. 0 < n \<and> w = replicate n CHR ''/'' @ v
           \<and> (\<forall>k>0. fullmatch (Cat slashes b) (replicate k CHR ''/'' @ v))"
proof -
  from assms have "w \<in> conc (lang slashes) (lang b)" by (simp add: fullmatch_lang)
  then obtain u v where uv: "w = u @ v" "u \<in> lang slashes" "v \<in> lang b"
    by (auto simp: conc_def)
  then obtain n where n: "u = replicate n CHR ''/''" "0 < n" by (auto simp: lang_slashes)
  have "fullmatch (Cat slashes b) (replicate k CHR ''/'' @ v)" if "0 < k" for k
  proof -
    from that have "replicate k CHR ''/'' \<in> lang slashes" by (auto simp: lang_slashes)
    with uv(3) have "replicate k CHR ''/'' @ v \<in> conc (lang slashes) (lang b)"
      unfolding conc_def by blast
    then show ?thesis by (simp add: fullmatch_lang)
  qed
  with uv(1) n show ?thesis by blast
qed

lemma void_not_nullable: "void r \<Longrightarrow> \<not> nullable r"
  by (induction r) auto

lemma void_deriv: "void r \<Longrightarrow> void (deriv c r)"
  by (induction r) (auto simp: void_not_nullable)

lemma void_no_match: "void r \<Longrightarrow> \<not> fullmatch r w"
  by (induction w arbitrary: r) (auto simp: void_not_nullable void_deriv)

lemma base_url_first:
  assumes "fullmatch reg_base_url w"
  shows "w \<noteq> [] \<and> hd w = CHR ''h''"
proof (cases w)
  case Nil
  with assms show ?thesis by (simp add: reg_base_url_def lit_def)
next
  case (Cons c v)
  have "void (deriv c reg_base_url)" if "c \<noteq> CHR ''h''"
    using that by (simp add: reg_base_url_def lit_def)
  with assms Cons have "c = CHR ''h''" using void_no_match by auto
  with Cons show ?thesis by simp
qed

lemma team_url_str_first:
  assumes "fullmatch reg_team_url_str w"
  shows "\<exists>v. w = CHR ''/'' # v \<and> v \<noteq> [] \<and> hd v \<noteq> CHR ''/''"
proof (cases w)
  case Nil
  with assms show ?thesis by (simp add: reg_team_url_str_def plus_def)
next
  case (Cons c v)
  have "void (deriv c reg_team_url_str)" if "c \<noteq> CHR ''/''"
    using that by (simp add: reg_team_url_str_def plus_def)
  with assms Cons have c: "c = CHR ''/''" using void_no_match by auto
  show ?thesis
  proof (cases v)
    case Nil
    with assms Cons c show ?thesis
      by (simp add: reg_team_url_str_def plus_def letter_def digit_def opt_def)
  next
    case (Cons d v')
    have "void (deriv CHR ''/'' (deriv CHR ''/'' reg_team_url_str))"
      by (simp add: reg_team_url_str_def plus_def letter_def digit_def opt_def in_range_def)
    with assms \<open>w = c # v\<close> c Cons have "d \<noteq> CHR ''/''" using void_no_match by auto
    with \<open>w = c # v\<close> c Cons show ?thesis by simp
  qed
qed

text \<open>
  C9, amended. A text matched by one of the fragments url_str, year, stage, result,
  overview, startlist and anything is a positive number of \<open>/\<close> followed by a rest, and
  the rest after any positive number of \<open>/\<close> is matched as well. The other two differ:
  a text matched by base_url begins with the \<open>h\<close> of \<open>https://\<close> (its one or more slashes
  are at the end), and a text matched by team_url_str begins with exactly one \<open>/\<close>.
\<close>

theorem reg_leading_slashes:
  assumes "(name, r) \<in> set reg" and "fullmatch r w"
  shows "if name = ''base_url'' then w \<noteq> [] \<and> hd w = CHR ''h''
         else if name = ''team_url_str''
           then \<exists>v. w = CHR ''/'' # v \<and> v \<noteq> [] \<and> hd v \<noteq> CHR ''/''
         else \<exists>n v. 0 < n \<and> w = replicate n CHR ''/'' @ v
                \<and> (\<forall>k>0. fullmatch r (replicate k CHR ''/'' @ v))"
proof -
  consider (base) "name = ''base_url''" "r = reg_base_url"
    | (team) "name = ''team_url_str''" "r = reg_team_url_str"
    | (lead) "name \<noteq> ''base_url''" "name \<noteq> ''team_url_str''" "\<exists>b. r = Cat slashes b"
    using assms(1)
    by (auto simp: reg_def reg_url_str_def reg_year_def reg_stage_def reg_result_def
          reg_overview_def reg_startlist_def reg_anything_def)
  then show ?thesis
  proof cases
    case base
    with assms(2) show ?thesis using base_url_first by simp
  next
    case team
    with assms(2) show ?thesis using team_url_str_first by simp
  next
    case lead
    then obtain b where "r = Cat slashes b" by blast
    with assms(2) lead(1,2) show ?thesis using leading_slashes by simp
  qed
qed

theorem reg_leading_slashes_witness:
  "(''year'', reg_year) \<in> set reg \<and> fullmatch reg_year ''/1111''
   \<and> (\<exists>n v. 0 < n \<and> ''/1111'' = replicate n CHR ''/'' @ v
         \<and> (\<forall>k>0. fullmatch reg_year (replicate k CHR ''/'' @ v)))"
proof -
  have a: "(''year'', reg_year) \<in> set reg" by (simp add: reg_def)
  have b: "fullmatch reg_year ''/1111''" by code_simp
  show ?thesis
    using a b reg_leading_slashes [OF a b] by simp
qed

text \<open>
  The claim as stated, for every fragment of the table, fails for base_url, whose example
  match does not begin with \<open>/\<close>, and for team_url_str, which refuses a second leading
  \<open>/\<close>.
\<close>

theorem reg_leading_slashes_counterexample:
  "(''base_url'', reg_base_url) \<in> set reg
   \<and> fullmatch reg_base_url ''https://www.procyclingstats.com/''
   \<and> hd ''https://www.procyclingstats.com/'' \<noteq> CHR ''/''
   \<and> (''team_url_str'', reg_team_url_str) \<in> set reg
   \<and> fullmatch reg_team_url_str ''/bora-hansgrohe-2022''
   \<and> \<not> fullmatch reg_team_url_str ''//bora-hansgrohe-2022''"
proof -
  have "(''base_url'', reg_base_url) \<in> set reg" "(''team_url_str'', reg_team_url_str) \<in> set reg"
    by (simp_all add: reg_def)
  moreover have "fullmatch reg_base_url ''https://www.procyclingstats.com/''" by code_simp
  moreover have "fullmatch reg_team_url_str ''/bora-hansgrohe-2022''" by code_simp
  moreover have "\<not> fullmatch reg_team_url_str ''//bora-hansgrohe-2022''" by code_simp
  ultimately show ?thesis by simp
qed

end
